theory Spec2Isabelle
  imports Complex_Main
begin

section \<open>AudioFX: the procedural audio engine of The Bellmore\<close>

text \<open>
  A shallow embedding of the AudioFX module (the version with the music engine). The
  module's variables become the fields of the record \<open>audiofx\<close>; every function of the
  module becomes a function that takes the state and returns the updated one.

  The module is read twice.
  \<^item> The first reading is idealised: times, gains and frequencies are exact reals, the
    AudioContext constructor never fails (what the browser decides is a parameter of
    type \<open>host\<close>), and the callback handed to \<^verbatim>\<open>ready().then\<close> runs inside the call when
    the promise is fulfilled. It carries the statements that do not hinge on these
    points: the scenario of the first tick, the chord and phrase selection, the
    early returns, the two buses.
  \<^item> The second reading, whose constants end in \<open>_js\<close>, is the one the engine
    executes: every arithmetic operation is rounded to binary64 (\<open>fl\<close>), the
    constructor may throw (type \<open>ctor\<close>), and \<^verbatim>\<open>ready().then(cb).catch(...)\<close> only
    registers \<open>cb\<close> in a \<open>chain\<close>; the callback runs later, from the state of that
    moment, if and when the promise is fulfilled (\<open>run_chain\<close>).

  Conventions common to both:
  \<^item> The phrase counter is only ever assigned 0 and incremented, so it is a natural
    number. The 32-bit conversion that \<^verbatim>\<open>>>\<close> performs on it is written out.
  \<^item> A property access on \<^verbatim>\<open>null\<close> or \<^verbatim>\<open>undefined\<close> throws a TypeError; a function that
    can throw returns an \<open>outcome\<close> beside the state, which keeps every assignment made
    before the throw.
  \<^item> The Web Audio graph is an external collaborator: its calls are recorded (the
    oscillators started, the automation put on the two bus gains), not validated.
\<close>

subsection \<open>Collaborators: audio context, gain nodes, voices, timers\<close>

datatype ctx_state = Suspended | Running

record audio_ctx =
  acState :: ctx_state
  currentTime :: real

text \<open>\<^verbatim>\<open>gain.setTargetAtTime(target, startTime, timeConstant)\<close> on a bus gain.\<close>

datatype automation = SetTarget real real real

record gain_node =
  gainValue :: real
  scheduled :: "automation list"

datatype bus = MasterBus | MusicBus

datatype wave = Sine | Triangle | Sawtooth | Noise

text \<open>
  One started source node: its waveform and frequency, the times given to
  \<^verbatim>\<open>start\<close> and \<^verbatim>\<open>stop\<close>, the time at which its gain envelope is back at zero, the
  envelope's peak, and the bus it feeds.
\<close>

record voice =
  vWave :: wave
  vFreq :: real
  startT :: real
  envEnd :: real
  stopT :: real
  vPeak :: real
  vBus :: bus

datatype callback = TickCallback | RestoreBusCallback

record timer =
  handle :: nat
  callback :: callback
  delayMs :: real

datatype promise = Fulfilled | Rejected | Pending

record host =
  hasCtor :: bool
  newCtxState :: ctx_state
  resumeSettles :: promise

datatype jserror = TypeError | DOMException

datatype outcome = Returned | Threw jserror

subsection \<open>Module state\<close>

record audiofx =
  ctx :: "audio_ctx option"
  master :: "gain_node option"
  noiseBufferMade :: bool
  vol :: real
  musicPlaying :: bool
  musicScheduled :: real
  musicTimer :: "nat option"
  musicBus :: "gain_node option"
  phraseCount :: nat
  voices :: "voice list"
  timers :: "timer list"
  lastHandle :: nat

type_synonym effect = "audiofx \<Rightarrow> outcome \<times> audiofx"

text \<open>The state right after the script has loaded.\<close>

definition initial :: audiofx where
  "initial = \<lparr>ctx = None, master = None, noiseBufferMade = False, vol = 0.325,
     musicPlaying = False, musicScheduled = 0, musicTimer = None, musicBus = None,
     phraseCount = 0, voices = [], timers = [], lastHandle = 0\<rparr>"

text \<open>Statements in sequence: a throw skips the statements after it.\<close>

primrec run_all :: "effect list \<Rightarrow> effect" where
  "run_all [] s = (Returned, s)"
| "run_all (f # fs) s =
     (case f s of (Returned, s') \<Rightarrow> run_all fs s' | (Threw e, s') \<Rightarrow> (Threw e, s'))"

text \<open>
  \<^verbatim>\<open>setTimeout\<close> hands out handles greater than zero, \<^verbatim>\<open>clearTimeout\<close> drops the
  pending timer with the given handle.
\<close>

definition setTimeout :: "callback \<Rightarrow> real \<Rightarrow> audiofx \<Rightarrow> nat \<times> audiofx" where
  "setTimeout cb ms s =
     (let h = Suc (lastHandle s)
      in (h, s\<lparr>timers := timers s @ [\<lparr>handle = h, callback = cb, delayMs = ms\<rparr>],
                lastHandle := h\<rparr>))"

definition clearTimeout :: "nat \<Rightarrow> audiofx \<Rightarrow> audiofx" where
  "clearTimeout h s = s\<lparr>timers := filter (\<lambda>t. handle t \<noteq> h) (timers s)\<rparr>"

subsection \<open>Context bootstrap\<close>

definition getCtx :: "host \<Rightarrow> audiofx \<Rightarrow> audiofx" where
  "getCtx h s =
     (case ctx s of
        Some c \<Rightarrow> s
      | None \<Rightarrow>
          if \<not> hasCtor h then s
          else s\<lparr>ctx := Some \<lparr>acState = newCtxState h, currentTime = 0\<rparr>,
                  master := Some \<lparr>gainValue = vol s, scheduled = []\<rparr>\<rparr>)"

definition now :: "audiofx \<Rightarrow> real" where
  "now s = (case ctx s of Some c \<Rightarrow> currentTime c | None \<Rightarrow> 0)"

text \<open>
  \<^verbatim>\<open>ready()\<close> returns a promise: rejected without a context, the promise of
  \<^verbatim>\<open>resume()\<close> for a suspended context, resolved otherwise. A fulfilled \<^verbatim>\<open>resume()\<close>
  leaves the context running.
\<close>

definition ready :: "host \<Rightarrow> audiofx \<Rightarrow> promise \<times> audiofx" where
  "ready h s =
     (let s1 = getCtx h s
      in case ctx s1 of
           None \<Rightarrow> (Rejected, s1)
         | Some c \<Rightarrow>
             if acState c = Suspended
             then (resumeSettles h,
                   if resumeSettles h = Fulfilled
                   then s1\<lparr>ctx := Some (c\<lparr>acState := Running\<rparr>)\<rparr> else s1)
             else (Fulfilled, s1))"

subsection \<open>Music engine: constants\<close>

definition PENTA :: "real list" where
  "PENTA = [147, 294, 330, 370, 440, 494, 587, 659, 740, 880]"

definition CHORDS :: "real list list" where
  "CHORDS = [[294, 370, 440], [440, 554, 659], [247, 294, 370], [392, 494, 587]]"

definition BAR :: real where
  "BAR = 1.92"

definition BEAT :: real where
  "BEAT = BAR / 4"

definition AHEAD :: real where
  "AHEAD = BAR * 2"

definition musicBusEnsure :: "host \<Rightarrow> effect" where
  "musicBusEnsure h s =
     (if musicBus s \<noteq> None then (Returned, s)
      else let s1 = getCtx h s
           in case ctx s1 of
                None \<Rightarrow> (Threw TypeError, s1)
              | Some c \<Rightarrow>
                  (Returned, s1\<lparr>musicBus := Some \<lparr>gainValue = 0.18, scheduled = []\<rparr>\<rparr>))"

subsection \<open>Music engine: voices\<close>

text \<open>\<^verbatim>\<open>_note\<close>: the smooth sine note (\<open>note\<close> is a keyword of the proof language).\<close>

definition sineNote :: "real \<Rightarrow> real \<Rightarrow> real \<Rightarrow> real \<Rightarrow> bus \<Rightarrow> effect" where
  "sineNote freq startT' dur peakGain busNode s =
     (if ctx s = None then (Threw TypeError, s)
      else let endT = startT' + dur + 0.04
           in (Returned,
               s\<lparr>voices := voices s @
                   [\<lparr>vWave = Sine, vFreq = freq, startT = startT', envEnd = endT,
                     stopT = endT + 0.01, vPeak = peakGain, vBus = busNode\<rparr>]\<rparr>))"

definition melNote :: "real \<Rightarrow> real \<Rightarrow> real \<Rightarrow> real \<Rightarrow> bus \<Rightarrow> effect" where
  "melNote freq startT' dur peakGain busNode s =
     (if ctx s = None then (Threw TypeError, s)
      else let endT = startT' + dur + 0.06
           in (Returned,
               s\<lparr>voices := voices s @
                   [\<lparr>vWave = Triangle, vFreq = freq, startT = startT', envEnd = endT,
                     stopT = endT + 0.01, vPeak = peakGain, vBus = busNode\<rparr>]\<rparr>))"

definition bassNote :: "real \<Rightarrow> real \<Rightarrow> bus \<Rightarrow> effect" where
  "bassNote freq startT' busNode s =
     (if ctx s = None then (Threw TypeError, s)
      else let endT = startT' + 0.45
           in (Returned,
               s\<lparr>voices := voices s @
                   [\<lparr>vWave = Sine, vFreq = freq / 2, startT = startT', envEnd = endT + 0.02,
                     stopT = endT + 0.03, vPeak = 0.55, vBus = busNode\<rparr>]\<rparr>))"

subsection \<open>Music engine: phrase, arpeggio, chord\<close>

definition shapes :: "nat list list" where
  "shapes = [[4,5,6,7, 6,5,4,3], [3,4,6,7, 9,7,6,4], [5,6,7,6, 4,3,4,5], [7,6,5,4, 5,6,7,9]]"

function phrase_loop :: "nat \<Rightarrow> nat list \<Rightarrow> real \<Rightarrow> bus \<Rightarrow> effect" where
  "phrase_loop i shape barStart busNode s =
     (if i < 8
      then let freq = PENTA ! (shape ! i mod length PENTA);
               t = barStart + real i * (BEAT / 2)
           in if i = 3 \<or> i = 7 then phrase_loop (i + 1) shape barStart busNode s
              else (case melNote freq t (BEAT * 0.48) 0.55 busNode s of
                      (Returned, s') \<Rightarrow> phrase_loop (i + 1) shape barStart busNode s'
                    | (Threw e, s') \<Rightarrow> (Threw e, s'))
      else (Returned, s))"
  by pat_completeness auto
termination
  by (relation "measure (\<lambda>(i, shape, barStart, busNode, s). 8 - i)") auto

declare phrase_loop.simps [simp del]

definition phrase :: "real \<Rightarrow> nat \<Rightarrow> bus \<Rightarrow> effect" where
  "phrase barStart phraseIdx busNode =
     phrase_loop 0 (shapes ! (phraseIdx mod length shapes)) barStart busNode"

text \<open>\<^verbatim>\<open>chord.forEach(function (freq, i) { ... })\<close>, from index \<open>i\<close> on.\<close>

fun arp_from :: "nat \<Rightarrow> real list \<Rightarrow> real \<Rightarrow> real \<Rightarrow> bus \<Rightarrow> effect" where
  "arp_from i [] barStart beat busNode s = (Returned, s)"
| "arp_from i (freq # rest) barStart beat busNode s =
     (case sineNote freq (barStart + beat * BEAT + real i * 0.055) (BEAT * 1.6) 0.28 busNode s of
        (Returned, s') \<Rightarrow> arp_from (Suc i) rest barStart beat busNode s'
      | (Threw e, s') \<Rightarrow> (Threw e, s'))"

definition arp :: "real list \<Rightarrow> real \<Rightarrow> real \<Rightarrow> bus \<Rightarrow> effect" where
  "arp chord barStart beat busNode = arp_from 0 chord barStart beat busNode"

text \<open>
  \<^verbatim>\<open>(_phraseCount >> 1) % _CHORDS.length\<close>: the shift converts its operand to a signed
  32-bit integer first, and \<^verbatim>\<open>%\<close> takes the sign of the dividend.
\<close>

definition toInt32 :: "nat \<Rightarrow> int" where
  "toInt32 n = (let m = int n mod 2 ^ 32 in if m \<ge> 2 ^ 31 then m - 2 ^ 32 else m)"

definition js_rem :: "int \<Rightarrow> int \<Rightarrow> int" where
  "js_rem x m = (if x < 0 then - ((- x) mod m) else x mod m)"

definition chordIndex :: "nat \<Rightarrow> int" where
  "chordIndex pc = js_rem (toInt32 pc div 2) (int (length CHORDS))"

text \<open>\<^verbatim>\<open>_CHORDS[ci]\<close>: \<^verbatim>\<open>undefined\<close> outside the array.\<close>

definition chordAt :: "int \<Rightarrow> real list option" where
  "chordAt ci = (if 0 \<le> ci \<and> ci < int (length CHORDS) then Some (CHORDS ! nat ci) else None)"

subsection \<open>Music engine: the look-ahead scheduler\<close>

definition scheduleBars :: "host \<Rightarrow> real \<Rightarrow> effect" where
  "scheduleBars h fromT s =
     (if \<not> musicPlaying s then (Returned, s)
      else case musicBusEnsure h s of
             (Threw e, s1) \<Rightarrow> (Threw e, s1)
           | (Returned, s1) \<Rightarrow>
               (case chordAt (chordIndex (phraseCount s1)) of
                  None \<Rightarrow> (Threw TypeError, s1)
                | Some chord \<Rightarrow>
                    (case run_all
                            [bassNote (chord ! 0) fromT MusicBus,
                             arp chord fromT 0 MusicBus,
                             arp chord fromT 2 MusicBus,
                             bassNote (chord ! 0) (fromT + BAR) MusicBus,
                             arp chord (fromT + BAR) 1 MusicBus,
                             arp chord (fromT + BAR) 3 MusicBus,
                             phrase fromT (phraseCount s1) MusicBus] s1 of
                       (Threw e, s2) \<Rightarrow> (Threw e, s2)
                     | (Returned, s2) \<Rightarrow>
                         (Returned, s2\<lparr>phraseCount := phraseCount s2 + 1,
                                        musicScheduled := fromT + BAR * 2\<rparr>))))"

text \<open>
  The \<^verbatim>\<open>while\<close> loop of the tick. Nothing in its text bounds the number of rounds, so
  it is a partial function: \<open>None\<close> stands for a loop that never ends.
\<close>

partial_function (option) scheduleLoop :: "host \<Rightarrow> real \<Rightarrow> audiofx \<Rightarrow> (outcome \<times> audiofx) option"
  where
  "scheduleLoop h ahead s =
     (if musicScheduled s < ahead
      then (case scheduleBars h (musicScheduled s) s of
              (Returned, s') \<Rightarrow> scheduleLoop h ahead s'
            | (Threw e, s') \<Rightarrow> Some (Threw e, s'))
      else Some (Returned, s))"

definition musicTick :: "host \<Rightarrow> audiofx \<Rightarrow> (outcome \<times> audiofx) option" where
  "musicTick h s =
     (if \<not> musicPlaying s then Some (Returned, s)
      else let s1 = getCtx h s
           in case ctx s1 of
                None \<Rightarrow> Some (Threw TypeError, s1)
              | Some c \<Rightarrow>
                  (case scheduleLoop h (currentTime c + AHEAD) s1 of
                     None \<Rightarrow> None
                   | Some (Threw e, s2) \<Rightarrow> Some (Threw e, s2)
                   | Some (Returned, s2) \<Rightarrow>
                       (let (t, s3) = setTimeout TickCallback ((BAR * 1000) / 2) s2
                        in Some (Returned, s3\<lparr>musicTimer := Some t\<rparr>))))"

subsection \<open>Transport: start, stop, fade\<close>

text \<open>
  The callback that \<^verbatim>\<open>musicStart\<close> hands to \<^verbatim>\<open>ready().then\<close>, in two parts: the
  assignments that bring the scheduler to its running state, and the first tick.
\<close>

definition musicStart_init :: "host \<Rightarrow> effect" where
  "musicStart_init h s =
     (case musicBusEnsure h s of
        (Threw e, s1) \<Rightarrow> (Threw e, s1)
      | (Returned, s1) \<Rightarrow>
          (let s2 = s1\<lparr>musicPlaying := True\<rparr>
           in case ctx s2 of
                None \<Rightarrow> (Threw TypeError, s2)
              | Some c \<Rightarrow>
                  (Returned, s2\<lparr>musicScheduled := currentTime c + 0.1, phraseCount := 0\<rparr>)))"

definition musicStart_then :: "host \<Rightarrow> audiofx \<Rightarrow> (outcome \<times> audiofx) option" where
  "musicStart_then h s =
     (case musicStart_init h s of
        (Threw e, s1) \<Rightarrow> Some (Threw e, s1)
      | (Returned, s1) \<Rightarrow> musicTick h s1)"

text \<open>
  \<^verbatim>\<open>ready().then(callback).catch(function () {})\<close>: the callback runs when the promise
  is fulfilled, and whatever it throws is swallowed; a rejection is swallowed too; a
  pending promise runs nothing. The caller sees a normal return in each case.
\<close>

definition musicStart :: "host \<Rightarrow> audiofx \<Rightarrow> (outcome \<times> audiofx) option" where
  "musicStart h s =
     (if musicPlaying s then Some (Returned, s)
      else case ready h s of
             (Fulfilled, s1) \<Rightarrow>
               (case musicStart_then h s1 of
                  None \<Rightarrow> None
                | Some (r, s2) \<Rightarrow> Some (Returned, s2))
           | (Rejected, s1) \<Rightarrow> Some (Returned, s1)
           | (Pending, s1) \<Rightarrow> Some (Returned, s1))"

text \<open>A handle is truthy unless it is \<^verbatim>\<open>null\<close> or 0.\<close>

definition musicStop :: "audiofx \<Rightarrow> audiofx" where
  "musicStop s =
     (let s1 = s\<lparr>musicPlaying := False\<rparr>;
          s2 = (case musicTimer s1 of
                  None \<Rightarrow> s1
                | Some t \<Rightarrow> if t = 0 then s1 else (clearTimeout t s1)\<lparr>musicTimer := None\<rparr>)
      in case musicBus s2 of
           None \<Rightarrow> s2
         | Some b \<Rightarrow>
             (case ctx s2 of
                None \<Rightarrow> s2
              | Some c \<Rightarrow>
                  snd (setTimeout RestoreBusCallback 2500
                    (s2\<lparr>musicBus :=
                          Some (b\<lparr>scheduled := scheduled b @ [SetTarget 0 (currentTime c) 0.4]\<rparr>)\<rparr>))))"

text \<open>The function that \<^verbatim>\<open>musicStop\<close> arms for 2500 ms later.\<close>

definition restoreBus :: "audiofx \<Rightarrow> audiofx" where
  "restoreBus s =
     (case musicBus s of
        None \<Rightarrow> s
      | Some b \<Rightarrow> s\<lparr>musicBus := Some (b\<lparr>gainValue := 0.18\<rparr>)\<rparr>)"

text \<open>
  \<^verbatim>\<open>timeConstant || 0.5\<close>: a missing argument and 0 both give the default.
\<close>

definition orDefault :: "real option \<Rightarrow> real \<Rightarrow> real" where
  "orDefault x d = (case x of None \<Rightarrow> d | Some v \<Rightarrow> if v = 0 then d else v)"

definition musicFade :: "real \<Rightarrow> real option \<Rightarrow> audiofx \<Rightarrow> audiofx" where
  "musicFade toVol timeConstant s =
     (case musicBus s of
        None \<Rightarrow> s
      | Some b \<Rightarrow>
          (case ctx s of
             None \<Rightarrow> s
           | Some c \<Rightarrow>
               s\<lparr>musicBus :=
                   Some (b\<lparr>scheduled := scheduled b @
                           [SetTarget toVol (currentTime c) (orDefault timeConstant 0.5)]\<rparr>)\<rparr>))"

subsection \<open>Effects volume\<close>

definition setVolume :: "real \<Rightarrow> effect" where
  "setVolume v s =
     (let s1 = s\<lparr>vol := max 0 (min 1 v)\<rparr>
      in case master s1 of
           None \<Rightarrow> (Returned, s1)
         | Some m \<Rightarrow>
             (case ctx s1 of
                None \<Rightarrow> (Threw TypeError, s1)
              | Some c \<Rightarrow>
                  (Returned,
                   s1\<lparr>master :=
                        Some (m\<lparr>scheduled := scheduled m @
                                [SetTarget (vol s1) (currentTime c) 0.02]\<rparr>)\<rparr>)))"

subsection \<open>Options of the one-shot sounds\<close>

text \<open>
  The optional argument of the \<^verbatim>\<open>play\<close> functions; \<^verbatim>\<open>opts || {}\<close> replaces a missing
  one by the empty object.
\<close>

record opts =
  optFreq :: "real option"
  optDuration :: "real option"

definition optsOrEmpty :: "opts option \<Rightarrow> opts" where
  "optsOrEmpty x = (case x of None \<Rightarrow> \<lparr>optFreq = None, optDuration = None\<rparr> | Some y \<Rightarrow> y)"

subsection \<open>Scenarios\<close>

text \<open>A browser with Web Audio whose contexts start out running.\<close>

definition activeHost :: host where
  "activeHost = \<lparr>hasCtor = True, newCtxState = Running, resumeSettles = Fulfilled\<rparr>"

text \<open>
  A running scheduler at clock 0 whose watermark is where \<^verbatim>\<open>musicStart\<close> puts it.
\<close>

definition running0 :: audiofx where
  "running0 = initial\<lparr>ctx := Some \<lparr>acState = Running, currentTime = 0\<rparr>,
     master := Some \<lparr>gainValue = 0.325, scheduled = []\<rparr>,
     musicBus := Some \<lparr>gainValue = 0.18, scheduled = []\<rparr>,
     musicPlaying := True, musicScheduled := 0.1\<rparr>"

subsection \<open>Notions used in the proofs\<close>

text \<open>
  An effect that only appends voices, each of them satisfying \<open>P\<close>, and that returns
  normally whenever the audio context exists.
\<close>

definition voice_effect :: "(voice \<Rightarrow> bool) \<Rightarrow> effect \<Rightarrow> bool" where
  "voice_effect P f =
     (\<forall>s. \<exists>vs. snd (f s) = s\<lparr>voices := voices s @ vs\<rparr> \<and> list_all P vs \<and>
        (ctx s \<noteq> None \<longrightarrow> fst (f s) = Returned))"

text \<open>
  The time window of the voices of one 2-bar block that starts at \<open>fromT\<close>: a voice
  starts inside the block and stops at most 0.448 s after the block's end.
\<close>

definition in_block :: "real \<Rightarrow> voice \<Rightarrow> bool" where
  "in_block fromT v =
     (fromT \<le> startT v \<and> startT v < fromT + BAR * 2 \<and> startT v < envEnd v \<and>
      envEnd v < stopT v \<and> stopT v \<le> fromT + BAR * 2 + 0.448 \<and> vBus v = MusicBus)"

section \<open>The engine in binary64, with a constructor that may throw\<close>

subsection \<open>Rounding to binary64\<close>

text \<open>
  A JavaScript number is an IEEE 754 binary64 value, and every arithmetic operation
  returns the exact result rounded to the nearest such value, ties to the even
  significand. \<open>fl\<close> is that rounding on the reals: \<open>binade x\<close> is the exponent \<open>e\<close>
  with \<open>2 ^ e \<le> x < 2 ^ (e + 1)\<close>, the grid of representable values around \<open>x\<close> has
  the step \<open>2 ^ (e - 52)\<close> (\<open>2 ^ -1074\<close> for subnormal values), and \<open>rne\<close> rounds to the
  nearest integer, ties to even. Overflow to infinity (beyond \<open>2 ^ 1024\<close>) is not
  modelled; the times of this module stay far below it. A literal of the source such as
  \<^verbatim>\<open>1.92\<close> denotes \<open>fl 1.92\<close>.
\<close>

fun ilog2 :: "nat \<Rightarrow> nat" where
  "ilog2 n = (if n < 2 then 0 else Suc (ilog2 (n div 2)))"

declare ilog2.simps [simp del]

definition pow2 :: "int \<Rightarrow> real" where
  "pow2 e = (if 0 \<le> e then 2 ^ nat e else 1 / 2 ^ nat (- e))"

definition binade :: "real \<Rightarrow> int" where
  "binade x =
     (if 1 \<le> x then int (ilog2 (nat \<lfloor>x\<rfloor>))
      else let n = ilog2 (nat \<lfloor>1 / x\<rfloor>)
           in if 1 / x = 2 ^ n then - int n else - int n - 1)"

definition rne :: "real \<Rightarrow> int" where
  "rne y =
     (let f = \<lfloor>y\<rfloor>; r = y - of_int f
      in if r < 1 / 2 then f
         else if 1 / 2 < r then f + 1
         else if even f then f else f + 1)"

definition fl :: "real \<Rightarrow> real" where
  "fl x =
     (if x = 0 then 0
      else let q = pow2 (max (binade \<bar>x\<bar> - 52) (- 1074))
           in of_int (rne (x / q)) * q)"

subsection \<open>Constants and bootstrap\<close>

definition BAR_js :: real where
  "BAR_js = fl 1.92"

definition BEAT_js :: real where
  "BEAT_js = fl (BAR_js / 4)"

definition AHEAD_js :: real where
  "AHEAD_js = fl (BAR_js * 2)"

text \<open>
  What the page offers as \<^verbatim>\<open>window.AudioContext || window.webkitAudioContext\<close>: nothing,
  a constructor that throws (browsers do when the audio device or the per-page quota
  of contexts is not available), or a constructor that returns a context in the given
  state.
\<close>

datatype ctor = NoCtor | CtorThrows | CtorMakes ctx_state

definition getCtx_js :: "ctor \<Rightarrow> effect" where
  "getCtx_js k s =
     (case ctx s of
        Some c \<Rightarrow> (Returned, s)
      | None \<Rightarrow>
          (case k of
             NoCtor \<Rightarrow> (Returned, s)
           | CtorThrows \<Rightarrow> (Threw DOMException, s)
           | CtorMakes st \<Rightarrow>
               (Returned,
                s\<lparr>ctx := Some \<lparr>acState = st, currentTime = 0\<rparr>,
                  master := Some \<lparr>gainValue = vol s, scheduled = []\<rparr>\<rparr>)))"

text \<open>
  \<^verbatim>\<open>ready()\<close> is evaluated by its caller before any \<^verbatim>\<open>.then\<close> or \<^verbatim>\<open>.catch\<close> is attached,
  so an exception of \<^verbatim>\<open>getCtx\<close> leaves \<^verbatim>\<open>ready\<close> as an exception (\<open>Inl\<close>). Otherwise it
  returns a promise: rejected without a constructor, the still pending promise of
  \<^verbatim>\<open>resume()\<close> for a suspended context, fulfilled otherwise.
\<close>

definition ready_js :: "ctor \<Rightarrow> audiofx \<Rightarrow> (jserror + promise) \<times> audiofx" where
  "ready_js k s =
     (case getCtx_js k s of
        (Threw e, s1) \<Rightarrow> (Inl e, s1)
      | (Returned, s1) \<Rightarrow>
          (case ctx s1 of
             None \<Rightarrow> (Inr Rejected, s1)
           | Some c \<Rightarrow>
               if acState c = Suspended then (Inr Pending, s1) else (Inr Fulfilled, s1)))"

definition musicBusEnsure_js :: "ctor \<Rightarrow> effect" where
  "musicBusEnsure_js k s =
     (if musicBus s \<noteq> None then (Returned, s)
      else case getCtx_js k s of
             (Threw e, s1) \<Rightarrow> (Threw e, s1)
           | (Returned, s1) \<Rightarrow>
               (case ctx s1 of
                  None \<Rightarrow> (Threw TypeError, s1)
                | Some c \<Rightarrow>
                    (Returned, s1\<lparr>musicBus := Some \<lparr>gainValue = fl 0.18, scheduled = []\<rparr>\<rparr>)))"

subsection \<open>Voices, phrase and arpeggio\<close>

definition sineNote_js :: "real \<Rightarrow> real \<Rightarrow> real \<Rightarrow> real \<Rightarrow> bus \<Rightarrow> effect" where
  "sineNote_js freq startT' dur peakGain busNode s =
     (if ctx s = None then (Threw TypeError, s)
      else let endT = fl (fl (startT' + dur) + fl 0.04)
           in (Returned,
               s\<lparr>voices := voices s @
                   [\<lparr>vWave = Sine, vFreq = freq, startT = startT', envEnd = endT,
                     stopT = fl (endT + fl 0.01), vPeak = peakGain, vBus = busNode\<rparr>]\<rparr>))"

definition melNote_js :: "real \<Rightarrow> real \<Rightarrow> real \<Rightarrow> real \<Rightarrow> bus \<Rightarrow> effect" where
  "melNote_js freq startT' dur peakGain busNode s =
     (if ctx s = None then (Threw TypeError, s)
      else let endT = fl (fl (startT' + dur) + fl 0.06)
           in (Returned,
               s\<lparr>voices := voices s @
                   [\<lparr>vWave = Triangle, vFreq = freq, startT = startT', envEnd = endT,
                     stopT = fl (endT + fl 0.01), vPeak = peakGain, vBus = busNode\<rparr>]\<rparr>))"

definition bassNote_js :: "real \<Rightarrow> real \<Rightarrow> bus \<Rightarrow> effect" where
  "bassNote_js freq startT' busNode s =
     (if ctx s = None then (Threw TypeError, s)
      else let endT = fl (startT' + fl 0.45)
           in (Returned,
               s\<lparr>voices := voices s @
                   [\<lparr>vWave = Sine, vFreq = fl (freq / 2), startT = startT',
                     envEnd = fl (endT + fl 0.02), stopT = fl (endT + fl 0.03),
                     vPeak = fl 0.55, vBus = busNode\<rparr>]\<rparr>))"

function phrase_loop_js :: "nat \<Rightarrow> nat list \<Rightarrow> real \<Rightarrow> bus \<Rightarrow> effect" where
  "phrase_loop_js i shape barStart busNode s =
     (if i < 8
      then let freq = PENTA ! (shape ! i mod length PENTA);
               t = fl (barStart + fl (real i * fl (BEAT_js / 2)))
           in if i = 3 \<or> i = 7 then phrase_loop_js (i + 1) shape barStart busNode s
              else (case melNote_js freq t (fl (BEAT_js * fl 0.48)) (fl 0.55) busNode s of
                      (Returned, s') \<Rightarrow> phrase_loop_js (i + 1) shape barStart busNode s'
                    | (Threw e, s') \<Rightarrow> (Threw e, s'))
      else (Returned, s))"
  by pat_completeness auto
termination
  by (relation "measure (\<lambda>(i, shape, barStart, busNode, s). 8 - i)") auto

declare phrase_loop_js.simps [simp del]

definition phrase_js :: "real \<Rightarrow> nat \<Rightarrow> bus \<Rightarrow> effect" where
  "phrase_js barStart phraseIdx busNode =
     phrase_loop_js 0 (shapes ! (phraseIdx mod length shapes)) barStart busNode"

fun arp_from_js :: "nat \<Rightarrow> real list \<Rightarrow> real \<Rightarrow> real \<Rightarrow> bus \<Rightarrow> effect" where
  "arp_from_js i [] barStart beat busNode s = (Returned, s)"
| "arp_from_js i (freq # rest) barStart beat busNode s =
     (case sineNote_js freq (fl (fl (barStart + fl (beat * BEAT_js)) + fl (real i * fl 0.055)))
             (fl (BEAT_js * fl 1.6)) (fl 0.28) busNode s of
        (Returned, s') \<Rightarrow> arp_from_js (Suc i) rest barStart beat busNode s'
      | (Threw e, s') \<Rightarrow> (Threw e, s'))"

definition arp_js :: "real list \<Rightarrow> real \<Rightarrow> real \<Rightarrow> bus \<Rightarrow> effect" where
  "arp_js chord barStart beat busNode = arp_from_js 0 chord barStart beat busNode"

subsection \<open>The look-ahead scheduler\<close>

definition scheduleBars_js :: "ctor \<Rightarrow> real \<Rightarrow> effect" where
  "scheduleBars_js k fromT s =
     (if \<not> musicPlaying s then (Returned, s)
      else case musicBusEnsure_js k s of
             (Threw e, s1) \<Rightarrow> (Threw e, s1)
           | (Returned, s1) \<Rightarrow>
               (case chordAt (chordIndex (phraseCount s1)) of
                  None \<Rightarrow> (Threw TypeError, s1)
                | Some chord \<Rightarrow>
                    (case run_all
                            [bassNote_js (chord ! 0) fromT MusicBus,
                             arp_js chord fromT 0 MusicBus,
                             arp_js chord fromT 2 MusicBus,
                             bassNote_js (chord ! 0) (fl (fromT + BAR_js)) MusicBus,
                             arp_js chord (fl (fromT + BAR_js)) 1 MusicBus,
                             arp_js chord (fl (fromT + BAR_js)) 3 MusicBus,
                             phrase_js fromT (phraseCount s1) MusicBus] s1 of
                       (Threw e, s2) \<Rightarrow> (Threw e, s2)
                     | (Returned, s2) \<Rightarrow>
                         (Returned, s2\<lparr>phraseCount := phraseCount s2 + 1,
                                        musicScheduled := fl (fromT + fl (BAR_js * 2))\<rparr>))))"

text \<open>
  The \<^verbatim>\<open>while\<close> loop of the tick; \<open>None\<close> stands for a loop that never ends.
\<close>

partial_function (option) scheduleLoop_js ::
    "ctor \<Rightarrow> real \<Rightarrow> audiofx \<Rightarrow> (outcome \<times> audiofx) option" where
  "scheduleLoop_js k ahead s =
     (if musicScheduled s < ahead
      then (case scheduleBars_js k (musicScheduled s) s of
              (Returned, s') \<Rightarrow> scheduleLoop_js k ahead s'
            | (Threw e, s') \<Rightarrow> Some (Threw e, s'))
      else Some (Returned, s))"

definition musicTick_js :: "ctor \<Rightarrow> audiofx \<Rightarrow> (outcome \<times> audiofx) option" where
  "musicTick_js k s =
     (if \<not> musicPlaying s then Some (Returned, s)
      else case getCtx_js k s of
             (Threw e, s1) \<Rightarrow> Some (Threw e, s1)
           | (Returned, s1) \<Rightarrow>
               (case ctx s1 of
                  None \<Rightarrow> Some (Threw TypeError, s1)
                | Some c \<Rightarrow>
                    (case scheduleLoop_js k (fl (currentTime c + AHEAD_js)) s1 of
                       None \<Rightarrow> None
                     | Some (Threw e, s2) \<Rightarrow> Some (Threw e, s2)
                     | Some (Returned, s2) \<Rightarrow>
                         (let (t, s3) = setTimeout TickCallback (fl (fl (BAR_js * 1000) / 2)) s2
                          in Some (Returned, s3\<lparr>musicTimer := Some t\<rparr>)))))"

subsection \<open>Start, and the promise chain\<close>

definition musicStart_init_js :: "ctor \<Rightarrow> effect" where
  "musicStart_init_js k s =
     (case musicBusEnsure_js k s of
        (Threw e, s1) \<Rightarrow> (Threw e, s1)
      | (Returned, s1) \<Rightarrow>
          (let s2 = s1\<lparr>musicPlaying := True\<rparr>
           in case ctx s2 of
                None \<Rightarrow> (Threw TypeError, s2)
              | Some c \<Rightarrow>
                  (Returned,
                   s2\<lparr>musicScheduled := fl (currentTime c + fl 0.1), phraseCount := 0\<rparr>)))"

definition musicStart_then_js :: "ctor \<Rightarrow> audiofx \<Rightarrow> (outcome \<times> audiofx) option" where
  "musicStart_then_js k s =
     (case musicStart_init_js k s of
        (Threw e, s1) \<Rightarrow> Some (Threw e, s1)
      | (Returned, s1) \<Rightarrow> musicTick_js k s1)"

text \<open>
  \<^verbatim>\<open>p.then(cb).catch(function () {})\<close> returns at once and leaves a chain behind: the
  promise \<open>p\<close> as it is at that moment and the callback. \<open>run_chain settled ch s\<close> is
  what the chain does later, in the state \<open>s\<close> of that moment, where \<open>settled\<close> tells how a
  pending promise has settled (\<open>Pending\<close>: never): the callback runs if the promise is
  fulfilled, and whatever it throws is swallowed; a rejection is swallowed too.
\<close>

datatype chain = Chain promise "audiofx \<Rightarrow> (outcome \<times> audiofx) option"

definition run_chain :: "promise \<Rightarrow> chain \<Rightarrow> audiofx \<Rightarrow> audiofx option" where
  "run_chain settled ch s =
     (case ch of
        Chain p cb \<Rightarrow>
          if (if p = Pending then settled else p) = Fulfilled
          then map_option snd (cb s) else Some s)"

definition readyThen ::
    "ctor \<Rightarrow> (audiofx \<Rightarrow> (outcome \<times> audiofx) option) \<Rightarrow> audiofx \<Rightarrow> (jserror + chain) \<times> audiofx" where
  "readyThen k cb s =
     (case ready_js k s of
        (Inl e, s1) \<Rightarrow> (Inl e, s1)
      | (Inr p, s1) \<Rightarrow> (Inr (Chain p cb), s1))"

definition musicStart_js :: "ctor \<Rightarrow> audiofx \<Rightarrow> (jserror + chain option) \<times> audiofx" where
  "musicStart_js k s =
     (if musicPlaying s then (Inr None, s)
      else case readyThen k (musicStart_then_js k) s of
             (Inl e, s1) \<Rightarrow> (Inl e, s1)
           | (Inr ch, s1) \<Rightarrow> (Inr (Some ch), s1))"

subsection \<open>One-shot sounds\<close>

text \<open>One bell strike: four oscillators under one envelope.\<close>

definition ding :: "real \<Rightarrow> real \<Rightarrow> effect" where
  "ding t freq s =
     (if ctx s = None then (Threw TypeError, s)
      else let tail = fl (fl (t + fl 1.1) + fl 0.04)
           in (Returned,
               s\<lparr>voices := voices s @
                   map (\<lambda>(w, f). \<lparr>vWave = w, vFreq = f, startT = t, envEnd = tail,
                                  stopT = fl (tail + fl 0.01), vPeak = fl 0.65,
                                  vBus = MasterBus\<rparr>)
                     [(Sine, freq), (Sine, fl (freq * fl 2.756)),
                      (Triangle, fl (freq * fl 5.405)), (Sine, fl (freq * fl 1.0083))]\<rparr>))"

definition playBell_then :: "opts \<Rightarrow> effect" where
  "playBell_then opts s =
     (let freq = orDefault (optFreq opts) 2637;
          t = now s
      in run_all [ding t freq, ding (fl (t + fl 0.18)) freq] s)"

definition playBell :: "ctor \<Rightarrow> opts option \<Rightarrow> audiofx \<Rightarrow> (jserror + chain) \<times> audiofx" where
  "playBell k opts = readyThen k (\<lambda>s. Some (playBell_then (optsOrEmpty opts) s))"

text \<open>The ghost pad: two sounding oscillators (the wobble oscillator feeds no bus).\<close>

definition playGhost_then :: "opts \<Rightarrow> effect" where
  "playGhost_then opts s =
     (let t = now s;
          base = orDefault (optFreq opts) 196
      in if ctx s = None then (Threw TypeError, s)
         else let tail = fl (fl (t + orDefault (optDuration opts) (fl 2.4)) + fl 0.06)
              in (Returned,
                  s\<lparr>voices := voices s @
                      map (\<lambda>f. \<lparr>vWave = Sine, vFreq = f, startT = t, envEnd = tail,
                                stopT = fl (tail + fl 0.01), vPeak = fl 0.45,
                                vBus = MasterBus\<rparr>)
                        [base, fl (base * fl 1.503)]\<rparr>))"

definition playGhost :: "ctor \<Rightarrow> opts option \<Rightarrow> audiofx \<Rightarrow> (jserror + chain) \<times> audiofx" where
  "playGhost k opts = readyThen k (\<lambda>s. Some (playGhost_then (optsOrEmpty opts) s))"

text \<open>The UI tick: a noise burst; \<open>vFreq\<close> holds the cutoff of its highpass filter.\<close>

definition playTick_then :: "opts \<Rightarrow> effect" where
  "playTick_then opts s =
     (let t = now s
      in if ctx s = None then (Threw TypeError, s)
         else let tail = fl (fl (t + fl 0.055) + fl 0.008)
              in (Returned,
                  s\<lparr>noiseBufferMade := True,
                    voices := voices s @
                      [\<lparr>vWave = Noise, vFreq = orDefault (optFreq opts) 2400, startT = t,
                        envEnd = tail, stopT = fl (tail + fl 0.005), vPeak = fl 0.52,
                        vBus = MasterBus\<rparr>]\<rparr>))"

definition playTick :: "ctor \<Rightarrow> opts option \<Rightarrow> audiofx \<Rightarrow> (jserror + chain) \<times> audiofx" where
  "playTick k opts = readyThen k (\<lambda>s. Some (playTick_then (optsOrEmpty opts) s))"

definition playBuzz_then :: "opts \<Rightarrow> effect" where
  "playBuzz_then opts s =
     (let t = now s
      in if ctx s = None then (Threw TypeError, s)
         else let tail = fl (fl (t + fl 0.18) + fl 0.015)
              in (Returned,
                  s\<lparr>voices := voices s @
                      [\<lparr>vWave = Sawtooth, vFreq = orDefault (optFreq opts) 120, startT = t,
                        envEnd = tail, stopT = fl (tail + fl 0.005), vPeak = fl 0.32,
                        vBus = MasterBus\<rparr>]\<rparr>))"

definition playBuzz :: "ctor \<Rightarrow> opts option \<Rightarrow> audiofx \<Rightarrow> (jserror + chain) \<times> audiofx" where
  "playBuzz k opts = readyThen k (\<lambda>s. Some (playBuzz_then (optsOrEmpty opts) s))"

subsection \<open>Scenarios in binary64\<close>

text \<open>
  The scheduler when its second tick fires, after a start at clock 0: the first tick
  has generated one block, the watermark is the double \<open>0.1 + 3.84\<close>, the clock has
  reached 0.96, and the timer of the first tick has just fired. The record of the
  voices started so far is left empty, so that the voices of a scenario are the ones it
  schedules.
\<close>

definition secondTick_js :: audiofx where
  "secondTick_js = \<lparr>ctx = Some \<lparr>acState = Running, currentTime = fl 0.96\<rparr>,
     master = Some \<lparr>gainValue = fl 0.325, scheduled = []\<rparr>,
     noiseBufferMade = False, vol = fl 0.325,
     musicPlaying = True, musicScheduled = fl (fl 0.1 + fl (BAR_js * 2)),
     musicTimer = Some 1,
     musicBus = Some \<lparr>gainValue = fl 0.18, scheduled = []\<rparr>,
     phraseCount = 1, voices = [], timers = [], lastHandle = 1\<rparr>"

text \<open>
  The same scheduler when its second tick fires late, at clock 7.78 (the timers of a
  page in the background are throttled).
\<close>

definition lateTick_js :: audiofx where
  "lateTick_js = secondTick_js\<lparr>ctx := Some \<lparr>acState = Running, currentTime = fl 7.78\<rparr>\<rparr>"

text \<open>
  A scheduler that has been running for a while: clock 15, five blocks generated since
  a start at clock 0, the sixteenth tick timer pending; and the same scheduler on a
  context that the browser has suspended meanwhile.
\<close>

definition playing5_js :: audiofx where
  "playing5_js = \<lparr>ctx = Some \<lparr>acState = Running, currentTime = 15\<rparr>,
     master = Some \<lparr>gainValue = fl 0.325, scheduled = []\<rparr>,
     noiseBufferMade = False, vol = fl 0.325,
     musicPlaying = True,
     musicScheduled = ((\<lambda>w. fl (w + fl (BAR_js * 2))) ^^ 5) (fl 0.1),
     musicTimer = Some 16,
     musicBus = Some \<lparr>gainValue = fl 0.18, scheduled = []\<rparr>,
     phraseCount = 5, voices = [],
     timers = [\<lparr>handle = 16, callback = TickCallback, delayMs = 960\<rparr>], lastHandle = 16\<rparr>"

definition suspended5_js :: audiofx where
  "suspended5_js = playing5_js\<lparr>ctx := Some \<lparr>acState = Suspended, currentTime = 15\<rparr>\<rparr>"

subsection \<open>Notions used in the proofs about the binary64 engine\<close>

text \<open>
  An effect that, from every state with an audio context, returns normally and appends
  exactly \<open>n\<close> voices, each of them satisfying \<open>P\<close>; and a voice whose start lies in
  \<open>[a1, a2]\<close> and whose envelope end and oscillator stop lie, in this order, in
  \<open>[b1, b2]\<close>.
\<close>

definition emits :: "nat \<Rightarrow> (voice \<Rightarrow> bool) \<Rightarrow> effect \<Rightarrow> bool" where
  "emits n P f =
     (\<forall>s. ctx s \<noteq> None \<longrightarrow>
        (\<exists>vs. f s = (Returned, s\<lparr>voices := voices s @ vs\<rparr>) \<and> length vs = n \<and> list_all P vs))"

definition timed :: "real \<Rightarrow> real \<Rightarrow> real \<Rightarrow> real \<Rightarrow> voice \<Rightarrow> bool" where
  "timed a1 a2 b1 b2 v =
     (a1 \<le> startT v \<and> startT v \<le> a2 \<and> b1 \<le> envEnd v \<and> envEnd v \<le> stopT v \<and> stopT v \<le> b2)"

section \<open>Phrase generator\<close>

text \<open>
  C5. The melodic phrase is a function of the phrase counter alone (for a given block
  start and bus), and the phrase for counter \<open>n\<close> is the phrase for counter
  \<open>n + k * numShapes\<close>, where \<open>numShapes\<close> is the number of shapes: the two calls
  schedule the same notes and end the same way, from every state.
\<close>

theorem phrase_periodic:
  "phrase barStart (n + k * length shapes) busNode s = phrase barStart n busNode s"
  by (simp add: phrase_def)

lemma chordIndex_small: "n < 2 ^ 31 \<Longrightarrow> chordIndex n = int ((n div 2) mod 4)"
  by (simp add: chordIndex_def toInt32_def js_rem_def CHORDS_def Let_def zdiv_int zmod_int)

text \<open>
  C2. The chord of the 2-bar block with index \<open>i\<close> should be the entry \<open>i mod 4\<close> of
  the harmonic plan. The code shifts the block counter right by one bit before it
  reduces it, so the second block (index 1) still plays the first chord, D major, where
  the plan's entry 1 is A major; and block 4 plays entry 2, not the chord of block 0.
  The second block's bass and first arpeggio are D3, D4, F#4, A4 accordingly.
\<close>

theorem chord_of_second_block:
  "chordIndex 1 = 0 \<and> chordAt (chordIndex 1) = Some [294, 370, 440] \<and>
   CHORDS ! (1 mod length CHORDS) = [440, 554, 659] \<and>
   chordIndex 0 = 0 \<and> chordIndex (0 + length CHORDS) = 2 \<and>
   map vFreq (take 4 (voices (snd (scheduleBars activeHost 3.94
      (running0\<lparr>phraseCount := 1, musicScheduled := 3.94\<rparr>))))) = [147, 294, 370, 440]"
  by (simp add: chordIndex_def toInt32_def js_rem_def chordAt_def CHORDS_def
      running0_def initial_def activeHost_def scheduleBars_def musicBusEnsure_def
      bassNote_def arp_def sineNote_def phrase_def phrase_loop.simps melNote_def Let_def)

section \<open>Voices of a block\<close>

lemma seq_voice_effect:
  assumes f: "voice_effect P f" and g: "voice_effect P g"
  shows "\<exists>vs. snd (case f s of (Returned, s') \<Rightarrow> g s' | (Threw e, s') \<Rightarrow> (Threw e, s')) =
            s\<lparr>voices := voices s @ vs\<rparr> \<and> list_all P vs \<and>
          (ctx s \<noteq> None \<longrightarrow>
             fst (case f s of (Returned, s') \<Rightarrow> g s' | (Threw e, s') \<Rightarrow> (Threw e, s')) = Returned)"
proof -
  obtain vs where vs: "snd (f s) = s\<lparr>voices := voices s @ vs\<rparr>" "list_all P vs"
    "ctx s \<noteq> None \<longrightarrow> fst (f s) = Returned"
    using f unfolding voice_effect_def by blast
  let ?s1 = "s\<lparr>voices := voices s @ vs\<rparr>"
  obtain ws where ws: "snd (g ?s1) = ?s1\<lparr>voices := voices ?s1 @ ws\<rparr>" "list_all P ws"
    "ctx ?s1 \<noteq> None \<longrightarrow> fst (g ?s1) = Returned"
    using g unfolding voice_effect_def by blast
  show ?thesis
  proof (cases "f s")
    case (Pair r s1)
    with vs have s1: "s1 = ?s1" by simp
    show ?thesis
    proof (cases r)
      case Returned
      with Pair s1 ws vs show ?thesis
        by (intro exI [of _ "vs @ ws"]) simp
    next
      case (Threw e)
      with Pair s1 vs show ?thesis
        by (intro exI [of _ vs]) auto
    qed
  qed
qed

lemma run_all_voice_effect:
  "list_all (voice_effect P) fs \<Longrightarrow> voice_effect P (run_all fs)"
proof (induction fs)
  case Nil
  show ?case by (auto simp: voice_effect_def intro: exI [of _ "[]"])
next
  case (Cons f fs)
  then have f: "voice_effect P f" and fs: "voice_effect P (run_all fs)" by simp_all
  show ?case
    unfolding voice_effect_def
  proof
    fix s
    show "\<exists>vs. snd (run_all (f # fs) s) = s\<lparr>voices := voices s @ vs\<rparr> \<and> list_all P vs \<and>
        (ctx s \<noteq> None \<longrightarrow> fst (run_all (f # fs) s) = Returned)"
      using seq_voice_effect [OF f fs, of s] by simp
  qed
qed

lemma sineNote_voice_effect:
  "P \<lparr>vWave = Sine, vFreq = freq, startT = t, envEnd = t + dur + 0.04,
      stopT = t + dur + 0.04 + 0.01, vPeak = pk, vBus = b\<rparr> \<Longrightarrow>
   voice_effect P (sineNote freq t dur pk b)"
  by (auto simp: voice_effect_def sineNote_def Let_def intro: exI [of _ "[]"])

lemma melNote_voice_effect:
  "P \<lparr>vWave = Triangle, vFreq = freq, startT = t, envEnd = t + dur + 0.06,
      stopT = t + dur + 0.06 + 0.01, vPeak = pk, vBus = b\<rparr> \<Longrightarrow>
   voice_effect P (melNote freq t dur pk b)"
  by (auto simp: voice_effect_def melNote_def Let_def intro: exI [of _ "[]"])

lemma bassNote_voice_effect:
  "P \<lparr>vWave = Sine, vFreq = freq / 2, startT = t, envEnd = t + 0.45 + 0.02,
      stopT = t + 0.45 + 0.03, vPeak = 0.55, vBus = b\<rparr> \<Longrightarrow>
   voice_effect P (bassNote freq t b)"
  by (auto simp: voice_effect_def bassNote_def Let_def intro: exI [of _ "[]"])

lemma arp_three:
  "arp [a, b, c] t beat busNode =
     run_all [sineNote a (t + beat * BEAT + 0 * 0.055) (BEAT * 1.6) 0.28 busNode,
              sineNote b (t + beat * BEAT + 1 * 0.055) (BEAT * 1.6) 0.28 busNode,
              sineNote c (t + beat * BEAT + 2 * 0.055) (BEAT * 1.6) 0.28 busNode]"
  by (rule ext) (simp add: arp_def split: prod.splits outcome.splits)

lemma phrase_loop_voice_effect:
  assumes P: "\<And>i. i < 8 \<Longrightarrow>
    P \<lparr>vWave = Triangle, vFreq = PENTA ! (shape ! i mod length PENTA),
       startT = t + real i * (BEAT / 2), envEnd = t + real i * (BEAT / 2) + BEAT * 0.48 + 0.06,
       stopT = t + real i * (BEAT / 2) + BEAT * 0.48 + 0.06 + 0.01, vPeak = 0.55, vBus = b\<rparr>"
  shows "voice_effect P (phrase_loop i shape t b)"
proof (induction "8 - i" arbitrary: i)
  case 0
  then have "phrase_loop i shape t b = (\<lambda>s. (Returned, s))"
    by (intro ext) (simp add: phrase_loop.simps)
  then show ?case
    by (auto simp: voice_effect_def intro: exI [of _ "[]"])
next
  case (Suc n)
  then have i: "i < 8" and rest: "voice_effect P (phrase_loop (i + 1) shape t b)" by simp_all
  have mel: "voice_effect P (melNote (PENTA ! (shape ! i mod length PENTA))
      (t + real i * (BEAT / 2)) (BEAT * 0.48) 0.55 b)"
    using P [OF i] by (rule melNote_voice_effect)
  show ?case
    unfolding voice_effect_def
  proof
    fix s
    show "\<exists>vs. snd (phrase_loop i shape t b s) = s\<lparr>voices := voices s @ vs\<rparr> \<and> list_all P vs \<and>
        (ctx s \<noteq> None \<longrightarrow> fst (phrase_loop i shape t b s) = Returned)"
    proof (cases "i = 3 \<or> i = 7")
      case True
      then have "phrase_loop i shape t b s = phrase_loop (i + 1) shape t b s"
        using i by (subst phrase_loop.simps) (simp add: Let_def)
      then show ?thesis
        using rest unfolding voice_effect_def by simp
    next
      case False
      then have "phrase_loop i shape t b s =
          (case melNote (PENTA ! (shape ! i mod length PENTA)) (t + real i * (BEAT / 2))
                  (BEAT * 0.48) 0.55 b s of
             (Returned, s') \<Rightarrow> phrase_loop (i + 1) shape t b s'
           | (Threw e, s') \<Rightarrow> (Threw e, s'))"
        using i by (subst phrase_loop.simps) (simp add: Let_def)
      then show ?thesis
        using seq_voice_effect [OF mel rest, of s] by simp
    qed
  qed
qed

lemma arp_in_block:
  assumes "beat \<in> {0, 1, 2, 3}" "off \<in> {0, BAR}" "off = BAR \<longrightarrow> beat \<in> {1, 3}" "off = 0 \<longrightarrow> beat \<in> {0, 2}"
  shows "voice_effect (in_block t) (arp [a, b, c] (t + off) beat MusicBus)"
  unfolding arp_three
  apply (rule run_all_voice_effect)
  using assms
  apply (auto intro!: sineNote_voice_effect simp: in_block_def BAR_def BEAT_def)
  done

lemma phrase_in_block: "voice_effect (in_block t) (phrase t n MusicBus)"
  unfolding phrase_def
proof (rule phrase_loop_voice_effect)
  fix i :: nat
  assume "i < 8"
  then have "real i \<le> 7" by simp
  then show "in_block t \<lparr>vWave = Triangle,
       vFreq = PENTA ! (shapes ! (n mod length shapes) ! i mod length PENTA),
       startT = t + real i * (BEAT / 2), envEnd = t + real i * (BEAT / 2) + BEAT * 0.48 + 0.06,
       stopT = t + real i * (BEAT / 2) + BEAT * 0.48 + 0.06 + 0.01, vPeak = 0.55, vBus = MusicBus\<rparr>"
    by (simp add: in_block_def BAR_def BEAT_def)
qed

lemma bass_in_block:
  "off \<in> {0, BAR} \<Longrightarrow> voice_effect (in_block t) (bassNote f (t + off) MusicBus)"
  by (auto intro!: bassNote_voice_effect simp: in_block_def BAR_def)

lemma block_voice_effect:
  "voice_effect (in_block t)
     (run_all [bassNote f t MusicBus, arp [a, b, c] t 0 MusicBus, arp [a, b, c] t 2 MusicBus,
               bassNote f (t + BAR) MusicBus, arp [a, b, c] (t + BAR) 1 MusicBus,
               arp [a, b, c] (t + BAR) 3 MusicBus, phrase t n MusicBus])"
  apply (rule run_all_voice_effect)
  using bass_in_block [of 0 t f] bass_in_block [of BAR t f]
    arp_in_block [of 0 0 t a b c] arp_in_block [of 2 0 t a b c]
    arp_in_block [of 1 BAR t a b c] arp_in_block [of 3 BAR t a b c]
    phrase_in_block [of t n]
  apply (simp add: BAR_def)
  done

lemma chordAt_three: "chordAt ci = Some chord \<Longrightarrow> \<exists>a b c. chord = [a, b, c]"
proof -
  assume a: "chordAt ci = Some chord"
  then have r: "0 \<le> ci" "ci < 4" and c: "chord = CHORDS ! nat ci"
    by (auto simp: chordAt_def CHORDS_def split: if_splits)
  then have "nat ci \<in> {0, 1, 2, 3}" by auto
  then show ?thesis
    using c by (auto simp: CHORDS_def)
qed

section \<open>One block\<close>

lemma getCtx_frame:
  "getCtx h s = s\<lparr>ctx := ctx (getCtx h s), master := master (getCtx h s)\<rparr>"
  by (cases "ctx s") (simp_all add: getCtx_def)

lemma getCtx_present: "ctx s = Some c \<Longrightarrow> getCtx h s = s"
  by (simp add: getCtx_def)

lemma musicBusEnsure_fields:
  "snd (musicBusEnsure h s) =
     s\<lparr>ctx := ctx (snd (musicBusEnsure h s)), master := master (snd (musicBusEnsure h s)),
       musicBus := musicBus (snd (musicBusEnsure h s))\<rparr>"
  by (cases "ctx s"; cases "musicBus s"; cases "hasCtor h")
     (simp_all add: musicBusEnsure_def getCtx_def Let_def)

lemma getCtx_keeps:
  "musicPlaying (getCtx h s) = musicPlaying s \<and> musicScheduled (getCtx h s) = musicScheduled s \<and>
   phraseCount (getCtx h s) = phraseCount s \<and> voices (getCtx h s) = voices s \<and>
   musicTimer (getCtx h s) = musicTimer s \<and> timers (getCtx h s) = timers s \<and>
   lastHandle (getCtx h s) = lastHandle s \<and> musicBus (getCtx h s) = musicBus s"
  by (cases "ctx s") (simp_all add: getCtx_def)

lemma musicBusEnsure_keeps:
  "musicPlaying (snd (musicBusEnsure h s)) = musicPlaying s \<and>
   musicScheduled (snd (musicBusEnsure h s)) = musicScheduled s \<and>
   phraseCount (snd (musicBusEnsure h s)) = phraseCount s \<and>
   voices (snd (musicBusEnsure h s)) = voices s \<and>
   musicTimer (snd (musicBusEnsure h s)) = musicTimer s \<and>
   timers (snd (musicBusEnsure h s)) = timers s \<and>
   lastHandle (snd (musicBusEnsure h s)) = lastHandle s"
  by (cases "ctx s"; cases "musicBus s"; cases "hasCtor h")
     (simp_all add: musicBusEnsure_def getCtx_def Let_def)

lemma musicBusEnsure_frame:
  "\<exists>c m b. snd (musicBusEnsure h s) = s\<lparr>ctx := c, master := m, musicBus := b\<rparr>"
  using musicBusEnsure_fields by blast

lemma scheduleBars_playing:
  assumes "musicPlaying s"
  shows "\<exists>c m b vs.
     list_all (in_block t) vs \<and>
     (scheduleBars h t s =
        (Returned, s\<lparr>ctx := c, master := m, musicBus := b, voices := voices s @ vs,
                      phraseCount := Suc (phraseCount s), musicScheduled := t + BAR * 2\<rparr>) \<or>
      (\<exists>e. scheduleBars h t s =
        (Threw e, s\<lparr>ctx := c, master := m, musicBus := b, voices := voices s @ vs\<rparr>)))"
proof -
  obtain c m b where fr: "snd (musicBusEnsure h s) = s\<lparr>ctx := c, master := m, musicBus := b\<rparr>"
    using musicBusEnsure_frame by blast
  let ?s1 = "s\<lparr>ctx := c, master := m, musicBus := b\<rparr>"
  obtain r where en: "musicBusEnsure h s = (r, ?s1)"
    using fr by (cases "musicBusEnsure h s") simp
  have same: "?s1\<lparr>voices := voices ?s1 @ []\<rparr> = ?s1" by simp
  show ?thesis
  proof (cases r)
    case (Threw e)
    then have "scheduleBars h t s = (Threw e, ?s1\<lparr>voices := voices s @ []\<rparr>)"
      using assms en by (simp add: scheduleBars_def)
    then show ?thesis
      by (intro exI [of _ c] exI [of _ m] exI [of _ b] exI [of _ "[]"]) simp
  next
    case Returned
    show ?thesis
    proof (cases "chordAt (chordIndex (phraseCount s))")
      case None
      then have "scheduleBars h t s = (Threw TypeError, ?s1\<lparr>voices := voices s @ []\<rparr>)"
        using assms en Returned by (simp add: scheduleBars_def)
      then show ?thesis
        by (intro exI [of _ c] exI [of _ m] exI [of _ b] exI [of _ "[]"]) simp
    next
      case (Some chord)
      then obtain x y z where chord: "chord = [x, y, z]"
        using chordAt_three by blast
      let ?body = "run_all [bassNote x t MusicBus, arp [x, y, z] t 0 MusicBus,
               arp [x, y, z] t 2 MusicBus, bassNote x (t + BAR) MusicBus,
               arp [x, y, z] (t + BAR) 1 MusicBus, arp [x, y, z] (t + BAR) 3 MusicBus,
               phrase t (phraseCount s) MusicBus]"
      obtain vs where vs: "snd (?body ?s1) = ?s1\<lparr>voices := voices ?s1 @ vs\<rparr>"
          "list_all (in_block t) vs"
        using block_voice_effect [of t x x y z "phraseCount s"]
        unfolding voice_effect_def by blast
      obtain r2 where r2: "?body ?s1 = (r2, ?s1\<lparr>voices := voices ?s1 @ vs\<rparr>)"
        using vs(1) by (cases "?body ?s1") simp
      show ?thesis
      proof (cases r2)
        case Returned
        then have "scheduleBars h t s =
            (Returned, s\<lparr>ctx := c, master := m, musicBus := b, voices := voices s @ vs,
                      phraseCount := Suc (phraseCount s), musicScheduled := t + BAR * 2\<rparr>)"
          using assms en \<open>r = Returned\<close> Some chord r2 by (simp add: scheduleBars_def)
        then show ?thesis
          using vs(2) by blast
      next
        case (Threw e)
        then have "scheduleBars h t s =
            (Threw e, s\<lparr>ctx := c, master := m, musicBus := b, voices := voices s @ vs\<rparr>)"
          using assms en \<open>r = Returned\<close> Some chord r2 by (simp add: scheduleBars_def)
        then show ?thesis
          using vs(2) by blast
      qed
    qed
  qed
qed

section \<open>The first tick\<close>

lemma musicBusEnsure_present:
  "ctx s = Some c \<Longrightarrow> fst (musicBusEnsure h s) = Returned \<and> ctx (snd (musicBusEnsure h s)) = Some c"
  by (cases "musicBus s") (simp_all add: musicBusEnsure_def getCtx_def Let_def)

lemma scheduleBars_outcome:
  assumes "musicPlaying s" "ctx s = Some c" "chordAt (chordIndex (phraseCount s)) = Some chord"
  shows "fst (scheduleBars h t s) = Returned"
proof -
  obtain s1 where en: "musicBusEnsure h s = (Returned, s1)" and c1: "ctx s1 = Some c"
    using musicBusEnsure_present [OF assms(2), of h] by (cases "musicBusEnsure h s") simp
  have pc: "phraseCount s1 = phraseCount s"
    using musicBusEnsure_keeps [of h s] en by simp
  obtain x y z where chord: "chord = [x, y, z]"
    using chordAt_three [OF assms(3)] by blast
  let ?body = "run_all [bassNote x t MusicBus, arp [x, y, z] t 0 MusicBus,
               arp [x, y, z] t 2 MusicBus, bassNote x (t + BAR) MusicBus,
               arp [x, y, z] (t + BAR) 1 MusicBus, arp [x, y, z] (t + BAR) 3 MusicBus,
               phrase t (phraseCount s) MusicBus]"
  have "fst (?body s1) = Returned"
    using block_voice_effect [of t x x y z "phraseCount s"] c1
    unfolding voice_effect_def by auto
  then obtain s2 where "?body s1 = (Returned, s2)"
    by (cases "?body s1") simp
  then show ?thesis
    using assms en pc chord by (simp add: scheduleBars_def)
qed

section \<open>Transport\<close>

lemma first_tick:
  assumes pl: "musicPlaying s" and c: "ctx s = Some c"
    and w: "musicScheduled s = currentTime c + 0.1" and p: "phraseCount s = 0"
  shows "\<exists>s' vs. musicTick h s = Some (Returned, s') \<and> musicPlaying s' \<and>
     musicScheduled s' = currentTime c + 0.1 + BAR * 2 \<and> phraseCount s' = 1 \<and>
     voices s' = voices s @ vs \<and> list_all (in_block (currentTime c + 0.1)) vs \<and>
     musicTimer s' = Some (Suc (lastHandle s))"
proof -
  have chord: "chordAt (chordIndex (phraseCount s)) = Some [294, 370, 440]"
    using p by (simp add: chordIndex_def toInt32_def js_rem_def chordAt_def CHORDS_def)
  have ret: "fst (scheduleBars h (musicScheduled s) s) = Returned"
    using scheduleBars_outcome [OF pl c chord] .
  obtain c' m b vs where vs: "list_all (in_block (musicScheduled s)) vs"
    and sb: "scheduleBars h (musicScheduled s) s =
        (Returned, s\<lparr>ctx := c', master := m, musicBus := b, voices := voices s @ vs,
                    phraseCount := Suc (phraseCount s),
                    musicScheduled := musicScheduled s + BAR * 2\<rparr>)"
    using scheduleBars_playing [OF pl, of "musicScheduled s" h] ret by auto
  let ?s1 = "s\<lparr>ctx := c', master := m, musicBus := b, voices := voices s @ vs,
                    phraseCount := Suc (phraseCount s),
                    musicScheduled := musicScheduled s + BAR * 2\<rparr>"
  have stop: "scheduleLoop h (currentTime c + AHEAD) ?s1 = Some (Returned, ?s1)"
    using w by (subst scheduleLoop.simps) (simp add: AHEAD_def BAR_def)
  have loop: "scheduleLoop h (currentTime c + AHEAD) s = Some (Returned, ?s1)"
    using w sb stop by (subst scheduleLoop.simps) (simp add: AHEAD_def BAR_def)
  have g: "getCtx h s = s"
    using c by (rule getCtx_present)
  have "musicTick h s =
      Some (Returned, (snd (setTimeout TickCallback ((BAR * 1000) / 2) ?s1))
              \<lparr>musicTimer := Some (fst (setTimeout TickCallback ((BAR * 1000) / 2) ?s1))\<rparr>)"
    using pl c g loop by (simp add: musicTick_def Let_def split: prod.splits)
  then show ?thesis
    using vs w p pl
    by (intro exI [of _ "(snd (setTimeout TickCallback ((BAR * 1000) / 2) ?s1))
              \<lparr>musicTimer := Some (fst (setTimeout TickCallback ((BAR * 1000) / 2) ?s1))\<rparr>"]
          exI [of _ vs])
       (simp add: setTimeout_def Let_def)
qed

lemma ready_keeps:
  "musicPlaying (snd (ready h s)) = musicPlaying s \<and>
   musicScheduled (snd (ready h s)) = musicScheduled s \<and>
   phraseCount (snd (ready h s)) = phraseCount s \<and>
   voices (snd (ready h s)) = voices s \<and>
   musicTimer (snd (ready h s)) = musicTimer s \<and>
   timers (snd (ready h s)) = timers s \<and>
   lastHandle (snd (ready h s)) = lastHandle s \<and>
   musicBus (snd (ready h s)) = musicBus s"
  by (cases "ctx s"; cases "hasCtor h")
     (simp_all add: ready_def getCtx_def Let_def)

lemma musicStart_init_ready:
  assumes "ctx s = Some c"
  shows "\<exists>s'. musicStart_init h s = (Returned, s') \<and> musicPlaying s' \<and> ctx s' = Some c \<and>
     musicScheduled s' = currentTime c + 0.1 \<and> phraseCount s' = 0 \<and>
     voices s' = voices s \<and> lastHandle s' = lastHandle s"
proof -
  obtain s1 where en: "musicBusEnsure h s = (Returned, s1)" and c1: "ctx s1 = Some c"
    using musicBusEnsure_present [OF assms, of h] by (cases "musicBusEnsure h s") simp
  have "voices s1 = voices s" "lastHandle s1 = lastHandle s"
    using musicBusEnsure_keeps [of h s] en by simp_all
  then show ?thesis
    using en c1 by (simp add: musicStart_init_def Let_def)
qed

lemma start_when_ready:
  assumes idle: "\<not> musicPlaying s" and r: "ready h s = (Fulfilled, s1)" and c: "ctx s1 = Some c"
  shows "\<exists>s' vs. musicStart h s = Some (Returned, s') \<and> musicPlaying s' \<and>
     musicScheduled s' = currentTime c + 0.1 + BAR * 2 \<and> phraseCount s' = 1 \<and>
     voices s' = voices s @ vs \<and> list_all (in_block (currentTime c + 0.1)) vs \<and>
     musicTimer s' = Some (Suc (lastHandle s))"
proof -
  obtain s2 where init: "musicStart_init h s1 = (Returned, s2)" and s2: "musicPlaying s2"
      "ctx s2 = Some c" "musicScheduled s2 = currentTime c + 0.1" "phraseCount s2 = 0"
      "voices s2 = voices s1" "lastHandle s2 = lastHandle s1"
    using musicStart_init_ready [OF c, of h] by blast
  obtain s' vs where tick: "musicTick h s2 = Some (Returned, s')" and s': "musicPlaying s'"
      "musicScheduled s' = currentTime c + 0.1 + BAR * 2" "phraseCount s' = 1"
      "voices s' = voices s2 @ vs" "list_all (in_block (currentTime c + 0.1)) vs"
      "musicTimer s' = Some (Suc (lastHandle s2))"
    using first_tick [OF s2(1) s2(2) s2(3) s2(4), of h] by blast
  have k: "voices s1 = voices s" "lastHandle s1 = lastHandle s"
    using ready_keeps [of h s] r by simp_all
  have "musicStart h s = Some (Returned, s')"
    using idle r init tick by (simp add: musicStart_def musicStart_then_def)
  then show ?thesis
    using s' s2 k by auto
qed

lemma ready_scenario:
  "ready activeHost initial =
     (Fulfilled, initial\<lparr>ctx := Some \<lparr>acState = Running, currentTime = 0\<rparr>,
                         master := Some \<lparr>gainValue = 0.325, scheduled = []\<rparr>\<rparr>)"
  by (simp add: ready_def getCtx_def activeHost_def initial_def)

text \<open>
  C1, as the code has it. When \<^verbatim>\<open>musicStart\<close> is called on an idle scheduler and the
  pipeline is ready at clock \<open>c\<close>, its callback puts the watermark at \<open>c + 0.1\<close> and runs
  the first tick, which generates exactly one 2-bar block: afterwards the watermark is
  \<open>c + 0.1 + 3.84\<close>, which is past the horizon \<open>c + 3.84\<close>, and the phrase counter is 1.
\<close>

theorem first_tick_after_start:
  assumes "\<not> musicPlaying s" and "ready h s = (Fulfilled, s1)" and "ctx s1 = Some c"
  shows "\<exists>s'. musicStart h s = Some (Returned, s') \<and>
     musicScheduled s' = currentTime c + 0.1 + 2 * BAR \<and>
     currentTime c + AHEAD \<le> musicScheduled s' \<and> phraseCount s' = 1"
proof -
  obtain s' where "musicStart h s = Some (Returned, s')"
      "musicScheduled s' = currentTime c + 0.1 + BAR * 2" "phraseCount s' = 1"
    using start_when_ready [OF assms] by blast
  then show ?thesis
    by (intro exI [of _ s']) (simp add: AHEAD_def)
qed

theorem first_tick_after_start_witness:
  "\<not> musicPlaying initial \<and>
   ready activeHost initial =
     (Fulfilled, initial\<lparr>ctx := Some \<lparr>acState = Running, currentTime = 0\<rparr>,
                         master := Some \<lparr>gainValue = 0.325, scheduled = []\<rparr>\<rparr>) \<and>
   (\<exists>s'. musicStart activeHost initial = Some (Returned, s') \<and>
      musicScheduled s' = 3.94 \<and> 3.84 \<le> musicScheduled s' \<and> phraseCount s' = 1)"
  using first_tick_after_start [of initial activeHost
      "initial\<lparr>ctx := Some \<lparr>acState = Running, currentTime = 0\<rparr>,
               master := Some \<lparr>gainValue = 0.325, scheduled = []\<rparr>\<rparr>"
      "\<lparr>acState = Running, currentTime = 0\<rparr>"]
    ready_scenario
  by (simp add: initial_def BAR_def AHEAD_def)

text \<open>
  C1, as stated, at clock 0.0: the phrase counter after the first tick is 1, not 2, and
  the watermark is 3.94.
\<close>

theorem first_tick_generates_one_block:
  "musicStart activeHost initial \<noteq> None \<and>
   fst (the (musicStart activeHost initial)) = Returned \<and>
   musicScheduled (snd (the (musicStart activeHost initial))) = 3.94 \<and>
   phraseCount (snd (the (musicStart activeHost initial))) = 1 \<and>
   phraseCount (snd (the (musicStart activeHost initial))) \<noteq> 2"
proof -
  have idle: "\<not> musicPlaying initial" by (simp add: initial_def)
  have c: "ctx (initial\<lparr>ctx := Some \<lparr>acState = Running, currentTime = 0\<rparr>,
               master := Some \<lparr>gainValue = 0.325, scheduled = []\<rparr>\<rparr>)
      = Some \<lparr>acState = Running, currentTime = 0\<rparr>" by simp
  obtain s' where "musicStart activeHost initial = Some (Returned, s')"
      "musicScheduled s' = currentTime \<lparr>acState = Running, currentTime = 0\<rparr> + 0.1 + BAR * 2"
      "phraseCount s' = 1"
    using start_when_ready [OF idle ready_scenario c] by blast
  then show ?thesis by (simp add: BAR_def)
qed

text \<open>
  C7. \<^verbatim>\<open>musicStart\<close> on a running scheduler returns at once and leaves the whole state
  as it is: watermark, phrase counter, timer handle, running flag, pending timers and
  scheduled voices.
\<close>

theorem start_is_noop_when_running:
  "musicPlaying s \<Longrightarrow> musicStart h s = Some (Returned, s)"
  by (simp add: musicStart_def)

theorem start_is_noop_when_running_witness:
  "musicPlaying running0 \<and> musicStart activeHost running0 = Some (Returned, running0)"
  using start_is_noop_when_running [of running0 activeHost]
  by (simp add: running0_def initial_def)

lemma musicStop_keeps:
  "\<not> musicPlaying (musicStop s) \<and> ctx (musicStop s) = ctx s \<and> voices (musicStop s) = voices s \<and>
   master (musicStop s) = master s \<and> phraseCount (musicStop s) = phraseCount s \<and>
   musicScheduled (musicStop s) = musicScheduled s"
  by (simp add: musicStop_def Let_def clearTimeout_def setTimeout_def split: option.splits)

text \<open>
  C10. \<^verbatim>\<open>musicStop\<close> clears the running flag; and with the flag cleared, the tick and
  the block generator return at once with the state untouched: no watermark advance, no
  phrase counter increment, no voice, no new timer.
\<close>

theorem stopped_callbacks_do_nothing:
  "\<not> musicPlaying (musicStop s0) \<and>
   (\<not> musicPlaying s \<longrightarrow>
      musicTick h s = Some (Returned, s) \<and> scheduleBars h t s = (Returned, s))"
  using musicStop_keeps [of s0] by (simp add: musicTick_def scheduleBars_def)

theorem stopped_callbacks_do_nothing_witness:
  "\<not> musicPlaying (musicStop running0) \<and>
   musicTick activeHost (musicStop running0) = Some (Returned, musicStop running0) \<and>
   scheduleBars activeHost 3.94 (musicStop running0) = (Returned, musicStop running0)"
  using stopped_callbacks_do_nothing [of running0 "musicStop running0" activeHost "3.94"]
  by simp

section \<open>The two buses\<close>

text \<open>
  C9. \<^verbatim>\<open>setVolume\<close> leaves the music bus as it is: it changes nothing but the stored
  effects volume and the master (effects) bus. \<^verbatim>\<open>musicFade\<close> leaves the master bus
  and the stored volume as they are: it changes nothing but the music bus.
\<close>

theorem volume_and_fade_are_disjoint:
  "musicBus (snd (setVolume v s)) = musicBus s \<and>
   snd (setVolume v s) = s\<lparr>vol := max 0 (min 1 v), master := master (snd (setVolume v s))\<rparr> \<and>
   master (musicFade toVol timeConstant s) = master s \<and>
   vol (musicFade toVol timeConstant s) = vol s \<and>
   musicFade toVol timeConstant s = s\<lparr>musicBus := musicBus (musicFade toVol timeConstant s)\<rparr>"
  by (simp add: setVolume_def musicFade_def Let_def split: option.splits)

section \<open>A block and the watermark, in exact arithmetic\<close>

text \<open>
  C4, as stated, fails on the block generated from 0.1 at clock 0: the third note of the
  arpeggio on beat 3 of bar 2 starts at 3.57, its envelope ends at 4.378 and its
  oscillator stops at 4.388, after the watermark 3.94.
\<close>

theorem final_arpeggio_outlasts_watermark:
  "musicPlaying running0 \<and>
   fst (scheduleBars activeHost 0.1 running0) = Returned \<and>
   musicScheduled (snd (scheduleBars activeHost 0.1 running0)) = 3.94 \<and>
   startT (voices (snd (scheduleBars activeHost 0.1 running0)) ! 13) = 3.57 \<and>
   envEnd (voices (snd (scheduleBars activeHost 0.1 running0)) ! 13) = 4.378 \<and>
   stopT (voices (snd (scheduleBars activeHost 0.1 running0)) ! 13) = 4.388 \<and>
   musicScheduled (snd (scheduleBars activeHost 0.1 running0))
     < envEnd (voices (snd (scheduleBars activeHost 0.1 running0)) ! 13)"
  by (simp add: running0_def initial_def activeHost_def
    scheduleBars_def musicBusEnsure_def chordAt_def chordIndex_def toInt32_def js_rem_def
    CHORDS_def bassNote_def arp_def sineNote_def phrase_def phrase_loop.simps melNote_def
    BAR_def BEAT_def Let_def)

section \<open>Binary64 rounding\<close>

lemmas fl_eval = fl_def binade_def rne_def pow2_def ilog2.simps Let_def

lemma nat_less_pow2: "(z::int) \<le> 2 ^ k \<Longrightarrow> nat z < 2 ^ Suc k"
proof -
  assume "z \<le> 2 ^ k"
  then have "z \<le> int (2 ^ k)" by simp
  then have le: "nat z \<le> 2 ^ k" by (simp only: nat_le_iff)
  have p: "(0::nat) < 2 ^ k" by simp
  show ?thesis using le p unfolding power_Suc by linarith
qed

lemma pow2_le_real: "(2::nat) ^ m \<le> n \<Longrightarrow> (2::real) ^ m \<le> real n"
proof -
  assume "(2::nat) ^ m \<le> n"
  then have "real ((2::nat) ^ m) \<le> real n" by (simp only: of_nat_le_iff)
  then show ?thesis by simp
qed

lemma real_less_pow2: "n < (2::nat) ^ m \<Longrightarrow> real n + 1 \<le> (2::real) ^ m"
proof -
  assume "n < (2::nat) ^ m"
  then have "Suc n \<le> 2 ^ m" by simp
  then have "real (Suc n) \<le> real ((2::nat) ^ m)" by (simp only: of_nat_le_iff)
  then show ?thesis by simp
qed

lemma ilog2_le: "n < 2 ^ Suc k \<Longrightarrow> ilog2 n \<le> k"
proof (induction k arbitrary: n)
  case 0
  then show ?case by (subst ilog2.simps) simp
next
  case (Suc k)
  show ?case
  proof (cases "n < 2")
    case True
    then show ?thesis by (subst ilog2.simps) simp
  next
    case False
    have "n div 2 < 2 ^ Suc k" using Suc.prems by simp
    then have "ilog2 (n div 2) \<le> k" by (rule Suc.IH)
    then show ?thesis using False by (subst ilog2.simps) simp
  qed
qed

lemma ilog2_bounds: "0 < n \<Longrightarrow> 2 ^ ilog2 n \<le> n \<and> n < 2 ^ Suc (ilog2 n)"
proof (induction n rule: ilog2.induct)
  case (1 n)
  show ?case
  proof (cases "n < 2")
    case True
    with "1.prems" have "n = 1" by simp
    then show ?thesis by (subst (1 2) ilog2.simps) simp
  next
    case False
    then have "0 < n div 2" by simp
    then have ih: "2 ^ ilog2 (n div 2) \<le> n div 2 \<and> n div 2 < 2 ^ Suc (ilog2 (n div 2))"
      using "1.IH" False by simp
    have e: "ilog2 n = Suc (ilog2 (n div 2))"
      using False by (subst ilog2.simps) simp
    show ?thesis unfolding e using ih by auto
  qed
qed

lemma pow2_pos: "0 < pow2 e"
  by (simp add: pow2_def)

lemma pow2_powr: "pow2 e = 2 powr real_of_int e"
proof (cases "0 \<le> e")
  case True
  then have "2 powr real_of_int e = 2 powr real (nat e)" by simp
  also have "\<dots> = 2 ^ nat e" by (simp add: powr_realpow)
  finally show ?thesis using True by (simp add: pow2_def)
next
  case False
  then have "2 powr real_of_int e = 2 powr (- real (nat (- e)))" by simp
  also have "\<dots> = 1 / 2 ^ nat (- e)" by (simp add: powr_minus powr_realpow divide_inverse)
  finally show ?thesis using False by (simp add: pow2_def)
qed

lemma pow2_mono: "e \<le> e' \<Longrightarrow> pow2 e \<le> pow2 e'"
  by (simp add: pow2_powr)

lemma binade_le:
  assumes "0 < x" "x \<le> 2 ^ k"
  shows "binade x \<le> int k"
proof (cases "1 \<le> x")
  case True
  have "\<lfloor>x\<rfloor> \<le> 2 ^ k" using assms(2) by (simp add: floor_le_iff)
  then have "nat \<lfloor>x\<rfloor> < 2 ^ Suc k" by (rule nat_less_pow2)
  then have "ilog2 (nat \<lfloor>x\<rfloor>) \<le> k" by (rule ilog2_le)
  then show ?thesis using True by (simp add: binade_def)
next
  case False
  then show ?thesis by (simp add: binade_def Let_def)
qed

lemma rne_near: "\<bar>of_int (rne y) - y\<bar> \<le> 1 / 2"
proof -
  have "of_int \<lfloor>y\<rfloor> \<le> y" "y < of_int \<lfloor>y\<rfloor> + 1" by linarith+
  then show ?thesis
    by (auto simp: rne_def Let_def)
qed

lemma fl_error:
  assumes "\<bar>x\<bar> \<le> 2 ^ 21"
  shows "\<bar>fl x - x\<bar> \<le> 1 / 2 ^ 32"
proof (cases "x = 0")
  case True
  then show ?thesis by (simp add: fl_def)
next
  case False
  define q where "q = pow2 (max (binade \<bar>x\<bar> - 52) (- 1074))"
  have qpos: "0 < q" unfolding q_def by (rule pow2_pos)
  have "binade \<bar>x\<bar> \<le> 21"
    using binade_le [of "\<bar>x\<bar>" 21] False assms by simp
  then have "max (binade \<bar>x\<bar> - 52) (- 1074) \<le> - 31" by simp
  then have "q \<le> pow2 (- 31)" unfolding q_def by (rule pow2_mono)
  then have qle: "q \<le> 1 / 2 ^ 31" by (simp add: pow2_def)
  have fl: "fl x = of_int (rne (x / q)) * q"
    using False by (simp add: fl_def q_def Let_def)
  have "fl x - x = (of_int (rne (x / q)) - x / q) * q"
    using qpos by (simp add: fl field_simps)
  then have "\<bar>fl x - x\<bar> = \<bar>of_int (rne (x / q)) - x / q\<bar> * q"
    using qpos by (simp add: abs_mult)
  also have "\<dots> \<le> (1 / 2) * q"
    using rne_near [of "x / q"] qpos by (intro mult_right_mono) simp_all
  also have "\<dots> \<le> (1 / 2) * (1 / 2 ^ 31)"
    using qle by simp
  finally show ?thesis by simp
qed

lemma pow2_nat: "pow2 (int k) = 2 ^ k" "pow2 (int k + 1) = 2 * 2 ^ k"
  "pow2 (- int k) = 1 / 2 ^ k" "pow2 (- int (Suc k) + 1) = 1 / 2 ^ k"
  by (simp_all add: pow2_def nat_add_distrib)

lemma binade_bounds:
  assumes "0 < x"
  shows "pow2 (binade x) \<le> x \<and> x < pow2 (binade x + 1)"
proof (cases "1 \<le> x")
  case True
  define n where "n = nat \<lfloor>x\<rfloor>"
  have fx: "1 \<le> \<lfloor>x\<rfloor>" using True by simp
  then have rn: "real n = of_int \<lfloor>x\<rfloor>" unfolding n_def by simp
  have n: "0 < n" "real n \<le> x" "x < real n + 1"
    using fx rn unfolding n_def by (simp, linarith, linarith)
  have b: "binade x = int (ilog2 n)" using True by (simp add: binade_def n_def)
  have i: "2 ^ ilog2 n \<le> n" "n < 2 ^ Suc (ilog2 n)" using ilog2_bounds [OF n(1)] by simp_all
  have r1: "(2::real) ^ ilog2 n \<le> real n" by (rule pow2_le_real [OF i(1)])
  have r2: "real n + 1 \<le> 2 * 2 ^ ilog2 n" using real_less_pow2 [OF i(2)] by (simp only: power_Suc)
  show ?thesis
    unfolding b pow2_nat using n(2,3) r1 r2 by linarith
next
  case False
  define y where "y = 1 / x"
  have y: "1 < y" using False assms by (simp add: y_def)
  define n where "n = nat \<lfloor>y\<rfloor>"
  have fy: "1 \<le> \<lfloor>y\<rfloor>" using y by simp
  then have rn: "real n = of_int \<lfloor>y\<rfloor>" unfolding n_def by simp
  have n: "0 < n" "real n \<le> y" "y < real n + 1"
    using fy rn unfolding n_def by (simp, linarith, linarith)
  have i: "2 ^ ilog2 n \<le> n" "n < 2 ^ Suc (ilog2 n)" using ilog2_bounds [OF n(1)] by simp_all
  have r1: "(2::real) ^ ilog2 n \<le> real n" by (rule pow2_le_real [OF i(1)])
  have r2: "real n + 1 \<le> 2 ^ Suc (ilog2 n)" by (rule real_less_pow2 [OF i(2)])
  have x: "x = 1 / y" using assms by (simp add: y_def)
  show ?thesis
  proof (cases "y = 2 ^ ilog2 n")
    case True
    then have b: "binade x = - int (ilog2 n)"
      using False by (simp add: binade_def Let_def y_def n_def)
    have x1: "x = 1 / 2 ^ ilog2 n" using x True by simp
    obtain m where m: "ilog2 n = Suc m"
      using True y by (cases "ilog2 n") simp_all
    have bx: "binade x = - int (Suc m)" using b m by simp
    have x2: "x = 1 / 2 ^ Suc m" using x1 m by simp
    have "(1::real) / 2 ^ Suc m < 1 / 2 ^ m"
      by (simp add: field_simps)
    then show ?thesis
      unfolding bx unfolding x2 pow2_nat by simp
  next
    case ne: False
    then have b: "binade x = - int (Suc (ilog2 n))"
      using False by (simp add: binade_def Let_def y_def n_def)
    have lo: "(2::real) ^ ilog2 n < y" using r1 n(2) ne by linarith
    have hi: "y < 2 ^ Suc (ilog2 n)" using r2 n(3) by linarith
    have "1 / 2 ^ Suc (ilog2 n) < 1 / y"
      using hi y by (intro divide_strict_left_mono) simp_all
    moreover have "1 / y < 1 / 2 ^ ilog2 n"
      using lo y by (intro divide_strict_left_mono) simp_all
    ultimately show ?thesis
      unfolding b unfolding x pow2_nat by simp
  qed
qed

text \<open>
  Some values of \<open>fl\<close>, as an engine prints them: \<open>0.1\<close>, \<open>1.92\<close>,
  \<open>0.1 + 0.2 = 0.30000000000000004\<close>, and two ties above \<open>2 ^ 53\<close>.
\<close>

lemma fl_examples:
  "fl 0.1 = 3602879701896397 / 2 ^ 55" "fl 1.92 = 1080863910568919 / 2 ^ 49"
  "fl (fl 0.1 + fl 0.2) = 5404319552844596 / 2 ^ 54"
  "fl (2 ^ 53 + 1) = 2 ^ 53" "fl (2 ^ 53 + 3) = 2 ^ 53 + 4" "fl (- 2.5) = - 2.5"
  by (simp_all add: fl_eval)

section \<open>Voices of a block in binary64\<close>

lemma list_all_weaken: "list_all P vs \<Longrightarrow> (\<And>v. P v \<Longrightarrow> Q v) \<Longrightarrow> list_all Q vs"
  by (induction vs) auto

lemma emits_weaken:
  assumes "emits n P f" and "\<And>v. P v \<Longrightarrow> Q v"
  shows "emits n Q f"
  unfolding emits_def
proof (intro allI impI)
  fix s :: audiofx
  assume c: "ctx s \<noteq> None"
  obtain vs where vs: "f s = (Returned, s\<lparr>voices := voices s @ vs\<rparr>)" "length vs = n"
      "list_all P vs"
    using assms(1) c unfolding emits_def by blast
  have "list_all Q vs" using vs(3) assms(2) by (rule list_all_weaken)
  with vs show "\<exists>vs. f s = (Returned, s\<lparr>voices := voices s @ vs\<rparr>) \<and> length vs = n \<and> list_all Q vs"
    by blast
qed

lemma emits_Nil: "emits 0 P (run_all [])"
  by (simp add: emits_def)

lemma emits_Cons:
  assumes f: "emits n P f" and g: "emits m P (run_all fs)"
  shows "emits (n + m) P (run_all (f # fs))"
  unfolding emits_def
proof (intro allI impI)
  fix s :: audiofx
  assume c: "ctx s \<noteq> None"
  obtain vs where vs: "f s = (Returned, s\<lparr>voices := voices s @ vs\<rparr>)" "length vs = n"
      "list_all P vs"
    using f c unfolding emits_def by blast
  let ?s1 = "s\<lparr>voices := voices s @ vs\<rparr>"
  have c1: "ctx ?s1 \<noteq> None" using c by simp
  obtain ws where ws: "run_all fs ?s1 = (Returned, ?s1\<lparr>voices := voices ?s1 @ ws\<rparr>)"
      "length ws = m" "list_all P ws"
    using g c1 unfolding emits_def by blast
  show "\<exists>vs. run_all (f # fs) s = (Returned, s\<lparr>voices := voices s @ vs\<rparr>) \<and>
      length vs = n + m \<and> list_all P vs"
    using vs ws by (intro exI [of _ "vs @ ws"]) simp
qed

lemma run_all_append:
  "run_all (fs @ gs) s =
     (case run_all fs s of (Returned, s') \<Rightarrow> run_all gs s' | (Threw e, s') \<Rightarrow> (Threw e, s'))"
  by (induction fs arbitrary: s) (auto split: prod.splits outcome.splits)

lemma fl_near:
  assumes "\<bar>x - y\<bar> \<le> e" and "\<bar>y\<bar> + e \<le> 2 ^ 21"
  shows "\<bar>fl x - y\<bar> \<le> e + 1 / 2 ^ 32"
proof -
  have "\<bar>x\<bar> \<le> 2 ^ 21" using assms by linarith
  then have "\<bar>fl x - x\<bar> \<le> 1 / 2 ^ 32" by (rule fl_error)
  then show ?thesis using assms(1) by linarith
qed

lemma consts_js:
  "\<bar>BAR_js - 1.92\<bar> \<le> 1 / 2 ^ 40" "\<bar>BEAT_js - 0.48\<bar> \<le> 1 / 2 ^ 40"
  "\<bar>AHEAD_js - 3.84\<bar> \<le> 1 / 2 ^ 40" "\<bar>fl (BAR_js * 2) - 3.84\<bar> \<le> 1 / 2 ^ 40"
  "\<bar>fl 0.1 - 0.1\<bar> \<le> 1 / 2 ^ 40" "\<bar>fl 0.04 - 0.04\<bar> \<le> 1 / 2 ^ 40"
  "\<bar>fl 0.01 - 0.01\<bar> \<le> 1 / 2 ^ 40" "\<bar>fl 0.06 - 0.06\<bar> \<le> 1 / 2 ^ 40"
  "\<bar>fl 0.45 - 0.45\<bar> \<le> 1 / 2 ^ 40" "\<bar>fl 0.02 - 0.02\<bar> \<le> 1 / 2 ^ 40"
  "\<bar>fl 0.03 - 0.03\<bar> \<le> 1 / 2 ^ 40"
  "\<bar>fl (BEAT_js * fl 1.6) - 0.768\<bar> \<le> 1 / 2 ^ 40"
  "\<bar>fl (BEAT_js * fl 0.48) - 0.2304\<bar> \<le> 1 / 2 ^ 40"
  by (simp_all add: BAR_js_def BEAT_js_def AHEAD_js_def fl_eval)

lemma emits_single:
  assumes "\<And>s. ctx s \<noteq> None \<Longrightarrow> f s = (Returned, s\<lparr>voices := voices s @ [v]\<rparr>)" and "P v"
  shows "emits 1 P f"
  unfolding emits_def
proof (intro allI impI)
  fix s :: audiofx
  assume "ctx s \<noteq> None"
  then have "f s = (Returned, s\<lparr>voices := voices s @ [v]\<rparr>)" by (rule assms(1))
  then show "\<exists>vs. f s = (Returned, s\<lparr>voices := voices s @ vs\<rparr>) \<and> length vs = 1 \<and> list_all P vs"
    using assms(2) by (intro exI [of _ "[v]"]) simp
qed

lemma near_bounds:
  fixes x :: real
  assumes "\<bar>x - y\<bar> \<le> e" and "e \<le> d"
  shows "y - d \<le> x \<and> x \<le> y + d"
  using assms by linarith

lemma fl_near_add:
  assumes "\<bar>a - a'\<bar> \<le> e1" and "\<bar>b - b'\<bar> \<le> e2" and "\<bar>a' + b'\<bar> + (e1 + e2) \<le> 2 ^ 21"
  shows "\<bar>fl (a + b) - (a' + b')\<bar> \<le> e1 + e2 + 1 / 2 ^ 32"
proof -
  have "\<bar>(a + b) - (a' + b')\<bar> \<le> e1 + e2" using assms(1,2) by linarith
  then show ?thesis using assms(3) by (rule fl_near)
qed

lemma sineNote_js_emits:
  assumes t: "0 \<le> t" "t \<le> 2 ^ 20 + 8" and d: "\<bar>dur - D\<bar> \<le> 1 / 2 ^ 40" and D: "0 \<le> D" "D \<le> 1"
  shows "emits 1 (timed t t (t + D + 0.04 - 1 / 2 ^ 30) (t + D + 0.05 + 1 / 2 ^ 30))
           (sineNote_js f t dur pk b)"
proof -
  have t0: "\<bar>t - t\<bar> \<le> 0" by simp
  have e1: "\<bar>fl (t + dur) - (t + D)\<bar> \<le> 0 + 1 / 2 ^ 40 + 1 / 2 ^ 32"
    using t D by (intro fl_near_add [OF t0 d]) simp
  have e2: "\<bar>fl (fl (t + dur) + fl 0.04) - (t + D + 0.04)\<bar>
      \<le> (0 + 1 / 2 ^ 40 + 1 / 2 ^ 32) + 1 / 2 ^ 40 + 1 / 2 ^ 32"
    using t D by (intro fl_near_add [OF e1 consts_js(6)]) simp
  have e3: "\<bar>fl (fl (fl (t + dur) + fl 0.04) + fl 0.01) - (t + D + 0.04 + 0.01)\<bar>
      \<le> ((0 + 1 / 2 ^ 40 + 1 / 2 ^ 32) + 1 / 2 ^ 40 + 1 / 2 ^ 32) + 1 / 2 ^ 40 + 1 / 2 ^ 32"
    using t D by (intro fl_near_add [OF e2 consts_js(7)]) simp
  have b2: "(t + D + 0.04) - 1 / 2 ^ 30 \<le> fl (fl (t + dur) + fl 0.04) \<and>
      fl (fl (t + dur) + fl 0.04) \<le> (t + D + 0.04) + 1 / 2 ^ 30"
    by (rule near_bounds [OF e2]) simp
  have b3: "(t + D + 0.04 + 0.01) - 1 / 2 ^ 30 \<le> fl (fl (fl (t + dur) + fl 0.04) + fl 0.01) \<and>
      fl (fl (fl (t + dur) + fl 0.04) + fl 0.01) \<le> (t + D + 0.04 + 0.01) + 1 / 2 ^ 30"
    by (rule near_bounds [OF e3]) simp
  have "timed t t (t + D + 0.04 - 1 / 2 ^ 30) (t + D + 0.05 + 1 / 2 ^ 30)
      \<lparr>vWave = Sine, vFreq = f, startT = t, envEnd = fl (fl (t + dur) + fl 0.04),
        stopT = fl (fl (fl (t + dur) + fl 0.04) + fl 0.01), vPeak = pk, vBus = b\<rparr>"
    using b2 b3 unfolding timed_def by (simp; linarith)
  then show ?thesis
    by (intro emits_single) (simp_all add: sineNote_js_def Let_def)
qed

lemma melNote_js_emits:
  assumes t: "0 \<le> t" "t \<le> 2 ^ 20 + 8" and d: "\<bar>dur - D\<bar> \<le> 1 / 2 ^ 40" and D: "0 \<le> D" "D \<le> 1"
  shows "emits 1 (timed t t (t + D + 0.06 - 1 / 2 ^ 30) (t + D + 0.07 + 1 / 2 ^ 30))
           (melNote_js f t dur pk b)"
proof -
  have t0: "\<bar>t - t\<bar> \<le> 0" by simp
  have e1: "\<bar>fl (t + dur) - (t + D)\<bar> \<le> 0 + 1 / 2 ^ 40 + 1 / 2 ^ 32"
    using t D by (intro fl_near_add [OF t0 d]) simp
  have e2: "\<bar>fl (fl (t + dur) + fl 0.06) - (t + D + 0.06)\<bar>
      \<le> (0 + 1 / 2 ^ 40 + 1 / 2 ^ 32) + 1 / 2 ^ 40 + 1 / 2 ^ 32"
    using t D by (intro fl_near_add [OF e1 consts_js(8)]) simp
  have e3: "\<bar>fl (fl (fl (t + dur) + fl 0.06) + fl 0.01) - (t + D + 0.06 + 0.01)\<bar>
      \<le> ((0 + 1 / 2 ^ 40 + 1 / 2 ^ 32) + 1 / 2 ^ 40 + 1 / 2 ^ 32) + 1 / 2 ^ 40 + 1 / 2 ^ 32"
    using t D by (intro fl_near_add [OF e2 consts_js(7)]) simp
  have b2: "(t + D + 0.06) - 1 / 2 ^ 30 \<le> fl (fl (t + dur) + fl 0.06) \<and>
      fl (fl (t + dur) + fl 0.06) \<le> (t + D + 0.06) + 1 / 2 ^ 30"
    by (rule near_bounds [OF e2]) simp
  have b3: "(t + D + 0.06 + 0.01) - 1 / 2 ^ 30 \<le> fl (fl (fl (t + dur) + fl 0.06) + fl 0.01) \<and>
      fl (fl (fl (t + dur) + fl 0.06) + fl 0.01) \<le> (t + D + 0.06 + 0.01) + 1 / 2 ^ 30"
    by (rule near_bounds [OF e3]) simp
  have "timed t t (t + D + 0.06 - 1 / 2 ^ 30) (t + D + 0.07 + 1 / 2 ^ 30)
      \<lparr>vWave = Triangle, vFreq = f, startT = t, envEnd = fl (fl (t + dur) + fl 0.06),
        stopT = fl (fl (fl (t + dur) + fl 0.06) + fl 0.01), vPeak = pk, vBus = b\<rparr>"
    using b2 b3 unfolding timed_def by (simp; linarith)
  then show ?thesis
    by (intro emits_single) (simp_all add: melNote_js_def Let_def)
qed

lemma bassNote_js_emits:
  assumes t: "0 \<le> t" "t \<le> 2 ^ 20 + 8"
  shows "emits 1 (timed t t (t + 0.47 - 1 / 2 ^ 30) (t + 0.48 + 1 / 2 ^ 30)) (bassNote_js f t b)"
proof -
  have t0: "\<bar>t - t\<bar> \<le> 0" by simp
  have e1: "\<bar>fl (t + fl 0.45) - (t + 0.45)\<bar> \<le> 0 + 1 / 2 ^ 40 + 1 / 2 ^ 32"
    using t by (intro fl_near_add [OF t0 consts_js(9)]) simp
  have e2: "\<bar>fl (fl (t + fl 0.45) + fl 0.02) - (t + 0.45 + 0.02)\<bar>
      \<le> (0 + 1 / 2 ^ 40 + 1 / 2 ^ 32) + 1 / 2 ^ 40 + 1 / 2 ^ 32"
    using t by (intro fl_near_add [OF e1 consts_js(10)]) simp
  have e3: "\<bar>fl (fl (t + fl 0.45) + fl 0.03) - (t + 0.45 + 0.03)\<bar>
      \<le> (0 + 1 / 2 ^ 40 + 1 / 2 ^ 32) + 1 / 2 ^ 40 + 1 / 2 ^ 32"
    using t by (intro fl_near_add [OF e1 consts_js(11)]) simp
  have b2: "(t + 0.45 + 0.02) - 1 / 2 ^ 30 \<le> fl (fl (t + fl 0.45) + fl 0.02) \<and>
      fl (fl (t + fl 0.45) + fl 0.02) \<le> (t + 0.45 + 0.02) + 1 / 2 ^ 30"
    by (rule near_bounds [OF e2]) simp
  have b3: "(t + 0.45 + 0.03) - 1 / 2 ^ 30 \<le> fl (fl (t + fl 0.45) + fl 0.03) \<and>
      fl (fl (t + fl 0.45) + fl 0.03) \<le> (t + 0.45 + 0.03) + 1 / 2 ^ 30"
    by (rule near_bounds [OF e3]) simp
  have "timed t t (t + 0.47 - 1 / 2 ^ 30) (t + 0.48 + 1 / 2 ^ 30)
      \<lparr>vWave = Sine, vFreq = fl (f / 2), startT = t, envEnd = fl (fl (t + fl 0.45) + fl 0.02),
        stopT = fl (fl (t + fl 0.45) + fl 0.03), vPeak = fl 0.55, vBus = b\<rparr>"
    using b2 b3 unfolding timed_def by (simp; linarith)
  then show ?thesis
    by (intro emits_single) (simp_all add: bassNote_js_def Let_def)
qed

lemma rne_nonneg: "0 \<le> y \<Longrightarrow> 0 \<le> rne y"
  by (auto simp: rne_def Let_def)

lemma fl_nonneg: "0 \<le> x \<Longrightarrow> 0 \<le> fl x"
proof (cases "x = 0")
  case True
  then show ?thesis by (simp add: fl_def)
next
  case False
  assume x: "0 \<le> x"
  define q where "q = pow2 (max (binade \<bar>x\<bar> - 52) (- 1074))"
  have qpos: "0 < q" unfolding q_def by (rule pow2_pos)
  have "0 \<le> rne (x / q)" using x qpos by (intro rne_nonneg) simp
  then have "0 \<le> of_int (rne (x / q)) * q" using qpos by simp
  then show ?thesis using False by (simp add: fl_def q_def Let_def)
qed

lemma beats_js:
  "fl (0 * BEAT_js) = 0" "\<bar>fl (1 * BEAT_js) - 0.48\<bar> \<le> 1 / 2 ^ 40"
  "\<bar>fl (2 * BEAT_js) - 0.96\<bar> \<le> 1 / 2 ^ 40" "\<bar>fl (3 * BEAT_js) - 1.44\<bar> \<le> 1 / 2 ^ 40"
  "fl (0 * fl 0.055) = 0" "\<bar>fl (1 * fl 0.055) - 0.055\<bar> \<le> 1 / 2 ^ 40"
  "\<bar>fl (2 * fl 0.055) - 0.11\<bar> \<le> 1 / 2 ^ 40"
  by (simp_all add: BAR_js_def BEAT_js_def fl_eval)

lemma slots_js:
  "fl (0 * fl (BEAT_js / 2)) = 0" "\<bar>fl (1 * fl (BEAT_js / 2)) - 0.24\<bar> \<le> 1 / 2 ^ 40"
  "\<bar>fl (2 * fl (BEAT_js / 2)) - 0.48\<bar> \<le> 1 / 2 ^ 40"
  "\<bar>fl (4 * fl (BEAT_js / 2)) - 0.96\<bar> \<le> 1 / 2 ^ 40"
  "\<bar>fl (5 * fl (BEAT_js / 2)) - 1.2\<bar> \<le> 1 / 2 ^ 40"
  "\<bar>fl (6 * fl (BEAT_js / 2)) - 1.44\<bar> \<le> 1 / 2 ^ 40"
  by (simp_all add: BAR_js_def BEAT_js_def fl_eval)

lemma arp_js_three:
  "arp_js [a, b, c] bs beat busNode =
     run_all [sineNote_js a (fl (fl (bs + fl (beat * BEAT_js)) + fl (0 * fl 0.055)))
                (fl (BEAT_js * fl 1.6)) (fl 0.28) busNode,
              sineNote_js b (fl (fl (bs + fl (beat * BEAT_js)) + fl (1 * fl 0.055)))
                (fl (BEAT_js * fl 1.6)) (fl 0.28) busNode,
              sineNote_js c (fl (fl (bs + fl (beat * BEAT_js)) + fl (2 * fl 0.055)))
                (fl (BEAT_js * fl 1.6)) (fl 0.28) busNode]"
  by (rule ext) (simp add: arp_js_def split: prod.splits outcome.splits)

lemma arp_note_js:
  assumes bs: "\<bar>bs - B\<bar> \<le> 1 / 2 ^ 31" "0 \<le> bs" "0 \<le> B" "B \<le> 2 ^ 20 + 2"
    and kb: "\<bar>kb - K\<bar> \<le> 1 / 2 ^ 40" "0 \<le> kb" "0 \<le> K" "K \<le> 2"
    and ki: "\<bar>ki - I\<bar> \<le> 1 / 2 ^ 40" "0 \<le> ki" "0 \<le> I" "I \<le> 0.11"
  shows "emits 1 (timed (B + K - 1 / 2 ^ 28) (B + K + 0.11 + 1 / 2 ^ 28)
                    (B + K + 0.808 - 1 / 2 ^ 28) (B + K + 0.928 + 1 / 2 ^ 28))
           (sineNote_js f (fl (fl (bs + kb) + ki)) (fl (BEAT_js * fl 1.6)) pk b)"
proof -
  define t where "t = fl (fl (bs + kb) + ki)"
  have e1: "\<bar>fl (bs + kb) - (B + K)\<bar> \<le> 1 / 2 ^ 31 + 1 / 2 ^ 40 + 1 / 2 ^ 32"
    using bs kb by (intro fl_near_add [OF bs(1) kb(1)]) simp
  have e2: "\<bar>t - (B + K + I)\<bar> \<le> (1 / 2 ^ 31 + 1 / 2 ^ 40 + 1 / 2 ^ 32) + 1 / 2 ^ 40 + 1 / 2 ^ 32"
    unfolding t_def using bs kb ki by (intro fl_near_add [OF e1 ki(1)]) simp
  have b: "(B + K + I) - 1 / 2 ^ 29 \<le> t \<and> t \<le> (B + K + I) + 1 / 2 ^ 29"
    by (rule near_bounds [OF e2]) simp
  have t0: "0 \<le> t"
    unfolding t_def using bs(2) kb(2) ki(2) by (intro fl_nonneg add_nonneg_nonneg)
  have t1: "t \<le> 2 ^ 20 + 8"
    using b bs kb ki by (simp; linarith)
  have "emits 1 (timed t t (t + 0.768 + 0.04 - 1 / 2 ^ 30) (t + 0.768 + 0.05 + 1 / 2 ^ 30))
      (sineNote_js f t (fl (BEAT_js * fl 1.6)) pk b)"
    using t0 t1 consts_js(12) by (intro sineNote_js_emits) simp_all
  then show ?thesis
    unfolding t_def [symmetric]
  proof (rule emits_weaken)
    fix v
    assume "timed t t (t + 0.768 + 0.04 - 1 / 2 ^ 30) (t + 0.768 + 0.05 + 1 / 2 ^ 30) v"
    then show "timed (B + K - 1 / 2 ^ 28) (B + K + 0.11 + 1 / 2 ^ 28)
                    (B + K + 0.808 - 1 / 2 ^ 28) (B + K + 0.928 + 1 / 2 ^ 28) v"
      using b ki unfolding timed_def by (simp; linarith)
  qed
qed

lemma arp_js_emits:
  assumes bs: "\<bar>bs - B\<bar> \<le> 1 / 2 ^ 31" "0 \<le> bs" "0 \<le> B" "B \<le> 2 ^ 20 + 2"
    and kb: "\<bar>fl (beat * BEAT_js) - K\<bar> \<le> 1 / 2 ^ 40" "0 \<le> beat" "0 \<le> K" "K \<le> 2"
  shows "emits 3 (timed (B + K - 1 / 2 ^ 28) (B + K + 0.11 + 1 / 2 ^ 28)
                    (B + K + 0.808 - 1 / 2 ^ 28) (B + K + 0.928 + 1 / 2 ^ 28))
           (arp_js [x, y, z] bs beat MusicBus)"
proof -
  let ?P = "timed (B + K - 1 / 2 ^ 28) (B + K + 0.11 + 1 / 2 ^ 28)
                    (B + K + 0.808 - 1 / 2 ^ 28) (B + K + 0.928 + 1 / 2 ^ 28)"
  have B0: "0 \<le> BEAT_js" unfolding BEAT_js_def BAR_js_def by (intro fl_nonneg) (simp add: fl_nonneg)
  have k0: "0 \<le> fl (beat * BEAT_js)" using kb(2) B0 by (intro fl_nonneg) simp
  have c0: "0 \<le> fl 0.055" by (intro fl_nonneg) simp
  have i0: "\<bar>fl (0 * fl 0.055) - 0\<bar> \<le> 1 / 2 ^ 40" "0 \<le> fl (0 * fl 0.055)"
    using beats_js(5) by simp_all
  have i1: "\<bar>fl (1 * fl 0.055) - 0.055\<bar> \<le> 1 / 2 ^ 40" "0 \<le> fl (1 * fl 0.055)"
    using beats_js(6) c0 by (simp, intro fl_nonneg, simp)
  have i2: "\<bar>fl (2 * fl 0.055) - 0.11\<bar> \<le> 1 / 2 ^ 40" "0 \<le> fl (2 * fl 0.055)"
    using beats_js(7) c0 by (simp, intro fl_nonneg, simp)
  have n0: "emits 1 ?P (sineNote_js x (fl (fl (bs + fl (beat * BEAT_js)) + fl (0 * fl 0.055)))
      (fl (BEAT_js * fl 1.6)) (fl 0.28) MusicBus)"
    by (rule arp_note_js [OF bs kb(1) k0 kb(3,4) i0]) simp_all
  have n1: "emits 1 ?P (sineNote_js y (fl (fl (bs + fl (beat * BEAT_js)) + fl (1 * fl 0.055)))
      (fl (BEAT_js * fl 1.6)) (fl 0.28) MusicBus)"
    by (rule arp_note_js [OF bs kb(1) k0 kb(3,4) i1]) simp_all
  have n2: "emits 1 ?P (sineNote_js z (fl (fl (bs + fl (beat * BEAT_js)) + fl (2 * fl 0.055)))
      (fl (BEAT_js * fl 1.6)) (fl 0.28) MusicBus)"
    by (rule arp_note_js [OF bs kb(1) k0 kb(3,4) i2]) simp_all
  have "emits (1 + (1 + (1 + 0))) ?P (arp_js [x, y, z] bs beat MusicBus)"
    unfolding arp_js_three by (intro emits_Cons emits_Nil n0 n1 n2)
  moreover have "(1::nat) + (1 + (1 + 0)) = 3" by simp
  ultimately show ?thesis by (simp only:)
qed

lemma emits_seq:
  assumes f: "emits n P f" and g: "emits m P g"
  shows "emits (n + m) P (\<lambda>s. case f s of (Returned, s') \<Rightarrow> g s' | (Threw e, s') \<Rightarrow> (Threw e, s'))"
  unfolding emits_def
proof (intro allI impI)
  fix s :: audiofx
  assume c: "ctx s \<noteq> None"
  obtain vs where vs: "f s = (Returned, s\<lparr>voices := voices s @ vs\<rparr>)" "length vs = n"
      "list_all P vs"
    using f c unfolding emits_def by blast
  let ?s1 = "s\<lparr>voices := voices s @ vs\<rparr>"
  have c1: "ctx ?s1 \<noteq> None" using c by simp
  obtain ws where ws: "g ?s1 = (Returned, ?s1\<lparr>voices := voices ?s1 @ ws\<rparr>)"
      "length ws = m" "list_all P ws"
    using g c1 unfolding emits_def by blast
  show "\<exists>vs. (case f s of (Returned, s') \<Rightarrow> g s' | (Threw e, s') \<Rightarrow> (Threw e, s')) =
      (Returned, s\<lparr>voices := voices s @ vs\<rparr>) \<and> length vs = n + m \<and> list_all P vs"
    using vs ws by (intro exI [of _ "vs @ ws"]) simp
qed

lemma slot_count: "length (filter (\<lambda>j. j \<noteq> 3 \<and> j \<noteq> 7) [0..<8]) = 6"
  by code_simp

lemma phrase_loop_js_emits:
  assumes P: "\<And>j. j < 8 \<Longrightarrow> j \<noteq> 3 \<Longrightarrow> j \<noteq> 7 \<Longrightarrow>
    emits 1 P (melNote_js (PENTA ! (shape ! j mod length PENTA))
      (fl (bs + fl (real j * fl (BEAT_js / 2)))) (fl (BEAT_js * fl 0.48)) (fl 0.55) b)"
  shows "emits (length (filter (\<lambda>j. j \<noteq> 3 \<and> j \<noteq> 7) [i..<8])) P (phrase_loop_js i shape bs b)"
proof (induction "8 - i" arbitrary: i)
  case 0
  then have "phrase_loop_js i shape bs b = (\<lambda>s. (Returned, s))"
    by (intro ext) (simp add: phrase_loop_js.simps)
  then show ?case
    using 0 by (simp add: emits_def)
next
  case (Suc n)
  then have i: "i < 8" and n: "n = 8 - (i + 1)" by simp_all
  have rest: "emits (length (filter (\<lambda>j. j \<noteq> 3 \<and> j \<noteq> 7) [i + 1..<8])) P
      (phrase_loop_js (i + 1) shape bs b)"
    using Suc.hyps(1) [OF n] .
  have upt: "[i..<8] = i # [i + 1..<8]"
    using i by (simp add: upt_conv_Cons)
  show ?case
  proof (cases "i = 3 \<or> i = 7")
    case True
    then have "phrase_loop_js i shape bs b = phrase_loop_js (i + 1) shape bs b"
      using i by (intro ext) (subst phrase_loop_js.simps, simp add: Let_def)
    then show ?thesis
      using rest True unfolding upt by auto
  next
    case False
    then have eq: "phrase_loop_js i shape bs b =
        (\<lambda>s. case melNote_js (PENTA ! (shape ! i mod length PENTA))
                  (fl (bs + fl (real i * fl (BEAT_js / 2)))) (fl (BEAT_js * fl 0.48)) (fl 0.55) b s of
             (Returned, s') \<Rightarrow> phrase_loop_js (i + 1) shape bs b s'
           | (Threw e, s') \<Rightarrow> (Threw e, s'))"
      using i by (intro ext) (subst phrase_loop_js.simps, simp add: Let_def)
    have mel: "emits 1 P (melNote_js (PENTA ! (shape ! i mod length PENTA))
        (fl (bs + fl (real i * fl (BEAT_js / 2)))) (fl (BEAT_js * fl 0.48)) (fl 0.55) b)"
      using P i False by simp
    have cnt: "length (filter (\<lambda>j. j \<noteq> 3 \<and> j \<noteq> 7) [i..<8]) =
        1 + length (filter (\<lambda>j. j \<noteq> 3 \<and> j \<noteq> 7) [i + 1..<8])"
      using False unfolding upt by simp
    show ?thesis
      unfolding eq cnt by (rule emits_seq [OF mel rest])
  qed
qed

lemma mel_slot_js:
  assumes bs: "0 \<le> bs" "bs \<le> 2 ^ 20"
    and c: "\<bar>c - C\<bar> \<le> 1 / 2 ^ 40" "0 \<le> c" "0 \<le> C" "C \<le> 1.44"
  shows "emits 1 (timed (bs - 1 / 2 ^ 28) (bs + 1.44 + 1 / 2 ^ 28)
                    (bs + 0.29 - 1 / 2 ^ 28) (bs + 1.7404 + 1 / 2 ^ 28))
           (melNote_js f (fl (bs + c)) (fl (BEAT_js * fl 0.48)) pk b)"
proof -
  define t where "t = fl (bs + c)"
  have b0: "\<bar>bs - bs\<bar> \<le> 0" by simp
  have e: "\<bar>t - (bs + C)\<bar> \<le> 0 + 1 / 2 ^ 40 + 1 / 2 ^ 32"
    unfolding t_def using bs c by (intro fl_near_add [OF b0 c(1)]) simp
  have b: "(bs + C) - 1 / 2 ^ 29 \<le> t \<and> t \<le> (bs + C) + 1 / 2 ^ 29"
    by (rule near_bounds [OF e]) simp
  have t0: "0 \<le> t"
    unfolding t_def using bs(1) c(2) by (intro fl_nonneg add_nonneg_nonneg)
  have t1: "t \<le> 2 ^ 20 + 8"
    using b bs c by (simp; linarith)
  have "emits 1 (timed t t (t + 0.2304 + 0.06 - 1 / 2 ^ 30) (t + 0.2304 + 0.07 + 1 / 2 ^ 30))
      (melNote_js f t (fl (BEAT_js * fl 0.48)) pk b)"
    using t0 t1 consts_js(13) by (intro melNote_js_emits) simp_all
  then show ?thesis
    unfolding t_def [symmetric]
  proof (rule emits_weaken)
    fix v
    assume "timed t t (t + 0.2304 + 0.06 - 1 / 2 ^ 30) (t + 0.2304 + 0.07 + 1 / 2 ^ 30) v"
    then show "timed (bs - 1 / 2 ^ 28) (bs + 1.44 + 1 / 2 ^ 28)
                    (bs + 0.29 - 1 / 2 ^ 28) (bs + 1.7404 + 1 / 2 ^ 28) v"
      using b c unfolding timed_def by (simp; linarith)
  qed
qed

lemma phrase_js_emits:
  assumes bs: "0 \<le> bs" "bs \<le> 2 ^ 20"
  shows "emits 6 (timed (bs - 1 / 2 ^ 28) (bs + 1.44 + 1 / 2 ^ 28)
                    (bs + 0.29 - 1 / 2 ^ 28) (bs + 1.7404 + 1 / 2 ^ 28))
           (phrase_js bs n MusicBus)"
proof -
  let ?P = "timed (bs - 1 / 2 ^ 28) (bs + 1.44 + 1 / 2 ^ 28)
                    (bs + 0.29 - 1 / 2 ^ 28) (bs + 1.7404 + 1 / 2 ^ 28)"
  let ?shape = "shapes ! (n mod length shapes)"
  have h0: "0 \<le> fl (BEAT_js / 2)"
    unfolding BEAT_js_def BAR_js_def by (intro fl_nonneg divide_nonneg_nonneg) simp_all
  have slot: "emits 1 ?P (melNote_js (PENTA ! (?shape ! j mod length PENTA))
      (fl (bs + fl (real j * fl (BEAT_js / 2)))) (fl (BEAT_js * fl 0.48)) (fl 0.55) MusicBus)"
    if j: "j < 8" "j \<noteq> 3" "j \<noteq> 7" for j
  proof -
    have c0: "0 \<le> fl (real j * fl (BEAT_js / 2))"
      by (rule fl_nonneg) (simp add: h0)
    from j have "j = 0 \<or> j = 1 \<or> j = 2 \<or> j = 4 \<or> j = 5 \<or> j = 6" by arith
    then obtain C where C: "\<bar>fl (real j * fl (BEAT_js / 2)) - C\<bar> \<le> 1 / 2 ^ 40" "0 \<le> C" "C \<le> 1.44"
      using slots_js by (elim disjE) (auto intro: that)
    show ?thesis
      by (rule mel_slot_js [OF bs C(1) c0 C(2,3)])
  qed
  have "emits (length (filter (\<lambda>j. j \<noteq> 3 \<and> j \<noteq> 7) [0..<8])) ?P
      (phrase_loop_js 0 ?shape bs MusicBus)"
    by (rule phrase_loop_js_emits) (rule slot)
  then show ?thesis
    unfolding phrase_js_def slot_count .
qed

lemma bar2_js:
  assumes t: "0 \<le> t" "t \<le> 2 ^ 20"
  shows "\<bar>fl (t + BAR_js) - (t + 1.92)\<bar> \<le> 1 / 2 ^ 31" "0 \<le> fl (t + BAR_js)"
    "fl (t + BAR_js) \<le> 2 ^ 20 + 8" "t + 1.91 \<le> fl (t + BAR_js)" "fl (t + BAR_js) \<le> t + 1.93"
proof -
  have t0: "\<bar>t - t\<bar> \<le> 0" by simp
  have e: "\<bar>fl (t + BAR_js) - (t + 1.92)\<bar> \<le> 0 + 1 / 2 ^ 40 + 1 / 2 ^ 32"
    using t by (intro fl_near_add [OF t0 consts_js(1)]) simp
  show "\<bar>fl (t + BAR_js) - (t + 1.92)\<bar> \<le> 1 / 2 ^ 31"
    using e by simp
  have b: "(t + 1.92) - 1 / 2 ^ 31 \<le> fl (t + BAR_js) \<and> fl (t + BAR_js) \<le> (t + 1.92) + 1 / 2 ^ 31"
    by (rule near_bounds [OF e]) simp
  show "0 \<le> fl (t + BAR_js)" using b t by (simp; linarith)
  show "fl (t + BAR_js) \<le> 2 ^ 20 + 8" using b t by (simp; linarith)
  show "t + 1.91 \<le> fl (t + BAR_js)" using b t by (simp; linarith)
  show "fl (t + BAR_js) \<le> t + 1.93" using b t by (simp; linarith)
qed

lemma block_pre_js:
  assumes t: "0 \<le> t" "t \<le> 2 ^ 20"
  shows "emits 11 (timed (t - 1 / 2 ^ 28) (t + 2.52) t (t + 3.33))
    (run_all [bassNote_js f t MusicBus, arp_js [x, y, z] t 0 MusicBus,
       arp_js [x, y, z] t 2 MusicBus, bassNote_js f (fl (t + BAR_js)) MusicBus,
       arp_js [x, y, z] (fl (t + BAR_js)) 1 MusicBus])"
proof -
  let ?P = "timed (t - 1 / 2 ^ 28) (t + 2.52) t (t + 3.33)"
  note b2 = bar2_js [OF t]
  have t0: "\<bar>t - t\<bar> \<le> 1 / 2 ^ 31" by simp
  have z0: "\<bar>fl (0 * BEAT_js) - 0\<bar> \<le> 1 / 2 ^ 40" unfolding beats_js(1) by simp
  have tb: "t \<le> 2 ^ 20 + 2" "t \<le> 2 ^ 20 + 8" "t + 1.92 \<le> 2 ^ 20 + 2" "0 \<le> t + 1.92"
    using t by simp_all
  have bass1: "emits 1 ?P (bassNote_js f t MusicBus)"
  proof (rule emits_weaken [OF bassNote_js_emits [OF t(1) tb(2)]])
    fix v assume "timed t t (t + 0.47 - 1 / 2 ^ 30) (t + 0.48 + 1 / 2 ^ 30) v"
    then show "?P v" unfolding timed_def by (simp; linarith)
  qed
  have arp0: "emits 3 ?P (arp_js [x, y, z] t 0 MusicBus)"
  proof (rule emits_weaken [OF arp_js_emits [OF t0 t(1) t(1) tb(1) z0]])
    fix v assume "timed (t + 0 - 1 / 2 ^ 28) (t + 0 + 0.11 + 1 / 2 ^ 28)
        (t + 0 + 0.808 - 1 / 2 ^ 28) (t + 0 + 0.928 + 1 / 2 ^ 28) v"
    then show "?P v" unfolding timed_def by (simp; linarith)
  qed simp_all
  have arp2: "emits 3 ?P (arp_js [x, y, z] t 2 MusicBus)"
  proof (rule emits_weaken [OF arp_js_emits [OF t0 t(1) t(1) tb(1) beats_js(3)]])
    fix v assume "timed (t + 0.96 - 1 / 2 ^ 28) (t + 0.96 + 0.11 + 1 / 2 ^ 28)
        (t + 0.96 + 0.808 - 1 / 2 ^ 28) (t + 0.96 + 0.928 + 1 / 2 ^ 28) v"
    then show "?P v" unfolding timed_def by (simp; linarith)
  qed simp_all
  have bass2: "emits 1 ?P (bassNote_js f (fl (t + BAR_js)) MusicBus)"
  proof (rule emits_weaken [OF bassNote_js_emits [OF b2(2) b2(3)]])
    fix v assume "timed (fl (t + BAR_js)) (fl (t + BAR_js)) (fl (t + BAR_js) + 0.47 - 1 / 2 ^ 30)
        (fl (t + BAR_js) + 0.48 + 1 / 2 ^ 30) v"
    then show "?P v" using b2(4,5) unfolding timed_def by (simp; linarith)
  qed
  have arp1: "emits 3 ?P (arp_js [x, y, z] (fl (t + BAR_js)) 1 MusicBus)"
  proof (rule emits_weaken [OF arp_js_emits [OF b2(1) b2(2) tb(4) tb(3) beats_js(2)]])
    fix v assume "timed (t + 1.92 + 0.48 - 1 / 2 ^ 28) (t + 1.92 + 0.48 + 0.11 + 1 / 2 ^ 28)
        (t + 1.92 + 0.48 + 0.808 - 1 / 2 ^ 28) (t + 1.92 + 0.48 + 0.928 + 1 / 2 ^ 28) v"
    then show "?P v" unfolding timed_def by (simp; linarith)
  qed simp_all
  have "emits (1 + (3 + (3 + (1 + (3 + 0))))) ?P
    (run_all [bassNote_js f t MusicBus, arp_js [x, y, z] t 0 MusicBus,
       arp_js [x, y, z] t 2 MusicBus, bassNote_js f (fl (t + BAR_js)) MusicBus,
       arp_js [x, y, z] (fl (t + BAR_js)) 1 MusicBus])"
    by (intro emits_Cons emits_Nil bass1 arp0 arp2 bass2 arp1)
  then show ?thesis by simp
qed

lemma block_fin_js:
  assumes t: "0 \<le> t" "t \<le> 2 ^ 20"
  shows "emits 3 (timed (t + 3.35) (t + 3.48) (t + 4.16) (t + 4.289))
    (run_all [arp_js [x, y, z] (fl (t + BAR_js)) 3 MusicBus])"
proof -
  let ?P = "timed (t + 3.35) (t + 3.48) (t + 4.16) (t + 4.289)"
  note b2 = bar2_js [OF t]
  have tb: "t + 1.92 \<le> 2 ^ 20 + 2" "0 \<le> t + 1.92"
    using t by simp_all
  have arp3: "emits 3 ?P (arp_js [x, y, z] (fl (t + BAR_js)) 3 MusicBus)"
  proof (rule emits_weaken [OF arp_js_emits [OF b2(1) b2(2) tb(2) tb(1) beats_js(4)]])
    fix v assume "timed (t + 1.92 + 1.44 - 1 / 2 ^ 28) (t + 1.92 + 1.44 + 0.11 + 1 / 2 ^ 28)
        (t + 1.92 + 1.44 + 0.808 - 1 / 2 ^ 28) (t + 1.92 + 1.44 + 0.928 + 1 / 2 ^ 28) v"
    then show "?P v" unfolding timed_def by (simp; linarith)
  qed simp_all
  have "emits (3 + 0) ?P (run_all [arp_js [x, y, z] (fl (t + BAR_js)) 3 MusicBus])"
    by (intro emits_Cons emits_Nil arp3)
  then show ?thesis by simp
qed

lemma block_mel_js:
  assumes t: "0 \<le> t" "t \<le> 2 ^ 20"
  shows "emits 6 (timed (t - 1 / 2 ^ 28) (t + 1.45) t (t + 1.75))
    (run_all [phrase_js t n MusicBus])"
proof -
  let ?P = "timed (t - 1 / 2 ^ 28) (t + 1.45) t (t + 1.75)"
  have ph: "emits 6 ?P (phrase_js t n MusicBus)"
  proof (rule emits_weaken [OF phrase_js_emits [OF t]])
    fix v assume "timed (t - 1 / 2 ^ 28) (t + 1.44 + 1 / 2 ^ 28)
                    (t + 0.29 - 1 / 2 ^ 28) (t + 1.7404 + 1 / 2 ^ 28) v"
    then show "?P v" unfolding timed_def by (simp; linarith)
  qed
  have "emits (6 + 0) ?P (run_all [phrase_js t n MusicBus])"
    by (intro emits_Cons emits_Nil ph)
  then show ?thesis by simp
qed

lemma block_js_emits:
  assumes c: "ctx s \<noteq> None" and t: "0 \<le> t" "t \<le> 2 ^ 20"
  shows "\<exists>pre fin mel.
     run_all [bassNote_js f t MusicBus, arp_js [x, y, z] t 0 MusicBus,
       arp_js [x, y, z] t 2 MusicBus, bassNote_js f (fl (t + BAR_js)) MusicBus,
       arp_js [x, y, z] (fl (t + BAR_js)) 1 MusicBus,
       arp_js [x, y, z] (fl (t + BAR_js)) 3 MusicBus,
       phrase_js t n MusicBus] s = (Returned, s\<lparr>voices := voices s @ pre @ fin @ mel\<rparr>) \<and>
     length pre = 11 \<and> length fin = 3 \<and> length mel = 6 \<and>
     list_all (timed (t - 1 / 2 ^ 28) (t + 2.52) t (t + 3.33)) pre \<and>
     list_all (timed (t + 3.35) (t + 3.48) (t + 4.16) (t + 4.289)) fin \<and>
     list_all (timed (t - 1 / 2 ^ 28) (t + 1.45) t (t + 1.75)) mel"
proof -
  let ?A = "[bassNote_js f t MusicBus, arp_js [x, y, z] t 0 MusicBus,
       arp_js [x, y, z] t 2 MusicBus, bassNote_js f (fl (t + BAR_js)) MusicBus,
       arp_js [x, y, z] (fl (t + BAR_js)) 1 MusicBus]"
  let ?B = "[arp_js [x, y, z] (fl (t + BAR_js)) 3 MusicBus]"
  let ?C = "[phrase_js t n MusicBus]"
  obtain pre where pre: "run_all ?A s = (Returned, s\<lparr>voices := voices s @ pre\<rparr>)"
      "length pre = 11" "list_all (timed (t - 1 / 2 ^ 28) (t + 2.52) t (t + 3.33)) pre"
    using block_pre_js [OF t, of f x y z] c unfolding emits_def by blast
  let ?s1 = "s\<lparr>voices := voices s @ pre\<rparr>"
  have c1: "ctx ?s1 \<noteq> None" using c by simp
  obtain fin where fin: "run_all ?B ?s1 = (Returned, ?s1\<lparr>voices := voices ?s1 @ fin\<rparr>)"
      "length fin = 3" "list_all (timed (t + 3.35) (t + 3.48) (t + 4.16) (t + 4.289)) fin"
    using block_fin_js [OF t, of x y z] c1 unfolding emits_def by blast
  let ?s2 = "?s1\<lparr>voices := voices ?s1 @ fin\<rparr>"
  have c2: "ctx ?s2 \<noteq> None" using c by simp
  obtain mel where mel: "run_all ?C ?s2 = (Returned, ?s2\<lparr>voices := voices ?s2 @ mel\<rparr>)"
      "length mel = 6" "list_all (timed (t - 1 / 2 ^ 28) (t + 1.45) t (t + 1.75)) mel"
    using block_mel_js [OF t, of n] c2 unfolding emits_def by blast
  have "run_all (?A @ ?B @ ?C) s = (Returned, ?s2\<lparr>voices := voices ?s2 @ mel\<rparr>)"
    unfolding run_all_append using pre(1) fin(1) mel(1) by simp
  then have "run_all [bassNote_js f t MusicBus, arp_js [x, y, z] t 0 MusicBus,
       arp_js [x, y, z] t 2 MusicBus, bassNote_js f (fl (t + BAR_js)) MusicBus,
       arp_js [x, y, z] (fl (t + BAR_js)) 1 MusicBus,
       arp_js [x, y, z] (fl (t + BAR_js)) 3 MusicBus,
       phrase_js t n MusicBus] s = (Returned, s\<lparr>voices := voices s @ pre @ fin @ mel\<rparr>)"
    by simp
  then show ?thesis
    using pre(2,3) fin(2,3) mel(2,3) by blast
qed

section \<open>One block in binary64\<close>

lemma musicBusEnsure_js_fields:
  "snd (musicBusEnsure_js k s) =
     s\<lparr>ctx := ctx (snd (musicBusEnsure_js k s)), master := master (snd (musicBusEnsure_js k s)),
       musicBus := musicBus (snd (musicBusEnsure_js k s))\<rparr>"
  by (cases "ctx s"; cases "musicBus s"; cases k)
     (simp_all add: musicBusEnsure_js_def getCtx_js_def)

lemma musicBusEnsure_js_present:
  "ctx s = Some c \<Longrightarrow>
     fst (musicBusEnsure_js k s) = Returned \<and> ctx (snd (musicBusEnsure_js k s)) = Some c"
  by (cases "musicBus s") (simp_all add: musicBusEnsure_js_def getCtx_js_def)

lemma block_js_absent:
  "ctx s = None \<Longrightarrow> run_all (bassNote_js f t b # rest) s = (Threw TypeError, s)"
  by (simp add: bassNote_js_def)

lemma scheduleBars_js_returned:
  assumes p: "musicPlaying s" and r: "scheduleBars_js k t s = (Returned, s')"
    and t: "0 \<le> t" "t \<le> 2 ^ 20"
  shows "\<exists>c m b pre fin mel.
     s' = s\<lparr>ctx := Some c, master := m, musicBus := b, voices := voices s @ pre @ fin @ mel,
            phraseCount := phraseCount s + 1, musicScheduled := fl (t + fl (BAR_js * 2))\<rparr> \<and>
     length pre = 11 \<and> length fin = 3 \<and> length mel = 6 \<and>
     list_all (timed (t - 1 / 2 ^ 28) (t + 2.52) t (t + 3.33)) pre \<and>
     list_all (timed (t + 3.35) (t + 3.48) (t + 4.16) (t + 4.289)) fin \<and>
     list_all (timed (t - 1 / 2 ^ 28) (t + 1.45) t (t + 1.75)) mel"
proof -
  obtain o1 s1 where en: "musicBusEnsure_js k s = (o1, s1)"
    by (cases "musicBusEnsure_js k s")
  have fr: "s1 = s\<lparr>ctx := ctx s1, master := master s1, musicBus := musicBus s1\<rparr>"
    using musicBusEnsure_js_fields [of k s] en by simp
  have pc: "phraseCount s1 = phraseCount s" and vo: "voices s1 = voices s"
    by (subst fr, simp)+
  have o1: "o1 = Returned"
    using r p en by (cases o1) (simp_all add: scheduleBars_js_def)
  obtain chord where ch: "chordAt (chordIndex (phraseCount s1)) = Some chord"
    using r p en o1 by (cases "chordAt (chordIndex (phraseCount s1))")
      (simp_all add: scheduleBars_js_def)
  obtain x y z where chord: "chord = [x, y, z]"
    using chordAt_three [OF ch] by blast
  let ?body = "run_all [bassNote_js (chord ! 0) t MusicBus, arp_js chord t 0 MusicBus,
       arp_js chord t 2 MusicBus, bassNote_js (chord ! 0) (fl (t + BAR_js)) MusicBus,
       arp_js chord (fl (t + BAR_js)) 1 MusicBus,
       arp_js chord (fl (t + BAR_js)) 3 MusicBus,
       phrase_js t (phraseCount s1) MusicBus]"
  have sb: "scheduleBars_js k t s =
      (case ?body s1 of (Threw e, s2) \<Rightarrow> (Threw e, s2)
       | (Returned, s2) \<Rightarrow> (Returned, s2\<lparr>phraseCount := phraseCount s2 + 1,
                                        musicScheduled := fl (t + fl (BAR_js * 2))\<rparr>))"
    using p en o1 ch by (simp add: scheduleBars_js_def)
  obtain c where c: "ctx s1 = Some c"
  proof (cases "ctx s1")
    case None
    then have "?body s1 = (Threw TypeError, s1)" by (rule block_js_absent)
    then show ?thesis using r sb by simp
  next
    case (Some c)
    then show ?thesis by (rule that)
  qed
  then have c1: "ctx s1 \<noteq> None" by simp
  obtain pre fin mel where
    body: "?body s1 = (Returned, s1\<lparr>voices := voices s1 @ pre @ fin @ mel\<rparr>)"
    and seg: "length pre = 11" "length fin = 3" "length mel = 6"
      "list_all (timed (t - 1 / 2 ^ 28) (t + 2.52) t (t + 3.33)) pre"
      "list_all (timed (t + 3.35) (t + 3.48) (t + 4.16) (t + 4.289)) fin"
      "list_all (timed (t - 1 / 2 ^ 28) (t + 1.45) t (t + 1.75)) mel"
    using block_js_emits [OF c1 t, of "chord ! 0" x y z "phraseCount s1"] chord by auto
  have "s' = (s1\<lparr>voices := voices s1 @ pre @ fin @ mel\<rparr>)
      \<lparr>phraseCount := phraseCount s1 + 1, musicScheduled := fl (t + fl (BAR_js * 2))\<rparr>"
    using r sb body by simp
  then have "s' = s\<lparr>ctx := Some c, master := master s1, musicBus := musicBus s1,
            voices := voices s @ pre @ fin @ mel,
            phraseCount := phraseCount s + 1, musicScheduled := fl (t + fl (BAR_js * 2))\<rparr>"
    unfolding pc vo by (subst (asm) fr) (simp add: c)
  then show ?thesis using seg by blast
qed

lemma scheduleBars_js_threw:
  assumes r: "scheduleBars_js k t s = (Threw e, s')" and t: "0 \<le> t" "t \<le> 2 ^ 20"
  shows "\<exists>c m b. s' = s\<lparr>ctx := c, master := m, musicBus := b\<rparr>"
proof -
  have p: "musicPlaying s"
    using r by (cases "musicPlaying s") (simp_all add: scheduleBars_js_def)
  obtain o1 s1 where en: "musicBusEnsure_js k s = (o1, s1)"
    by (cases "musicBusEnsure_js k s")
  have fr: "s1 = s\<lparr>ctx := ctx s1, master := master s1, musicBus := musicBus s1\<rparr>"
    using musicBusEnsure_js_fields [of k s] en by simp
  have "s' = s1"
  proof (cases o1)
    case (Threw e')
    then show ?thesis using r p en by (simp add: scheduleBars_js_def)
  next
    case Returned
    show ?thesis
    proof (cases "chordAt (chordIndex (phraseCount s1))")
      case None
      then show ?thesis using r p en Returned by (simp add: scheduleBars_js_def)
    next
      case (Some chord)
      obtain x y z where chord: "chord = [x, y, z]"
        using chordAt_three [OF Some] by blast
      let ?body = "run_all [bassNote_js (chord ! 0) t MusicBus, arp_js chord t 0 MusicBus,
         arp_js chord t 2 MusicBus, bassNote_js (chord ! 0) (fl (t + BAR_js)) MusicBus,
         arp_js chord (fl (t + BAR_js)) 1 MusicBus,
         arp_js chord (fl (t + BAR_js)) 3 MusicBus,
         phrase_js t (phraseCount s1) MusicBus]"
      have sb: "scheduleBars_js k t s =
          (case ?body s1 of (Threw e, s2) \<Rightarrow> (Threw e, s2)
           | (Returned, s2) \<Rightarrow> (Returned, s2\<lparr>phraseCount := phraseCount s2 + 1,
                                            musicScheduled := fl (t + fl (BAR_js * 2))\<rparr>))"
        using p en Returned Some by (simp add: scheduleBars_js_def)
      show ?thesis
      proof (cases "ctx s1")
        case None
        then have "?body s1 = (Threw TypeError, s1)" by (rule block_js_absent)
        then show ?thesis using r sb by simp
      next
        case (Some c)
        then have c1: "ctx s1 \<noteq> None" by simp
        obtain s2 where "?body s1 = (Returned, s2)"
          using block_js_emits [OF c1 t, of "chord ! 0" x y z "phraseCount s1"] chord by auto
        then show ?thesis using r sb by simp
      qed
    qed
  qed
  then show ?thesis using fr by metis
qed

lemma scheduleBars_js_returns:
  assumes p: "musicPlaying s" and c: "ctx s = Some c"
    and ch: "chordAt (chordIndex (phraseCount s)) = Some chord"
    and t: "0 \<le> t" "t \<le> 2 ^ 20"
  shows "fst (scheduleBars_js k t s) = Returned"
proof -
  obtain s1 where en: "musicBusEnsure_js k s = (Returned, s1)" and c1: "ctx s1 = Some c"
    using musicBusEnsure_js_present [OF c, of k] by (cases "musicBusEnsure_js k s") simp
  have fr: "s1 = s\<lparr>ctx := ctx s1, master := master s1, musicBus := musicBus s1\<rparr>"
    using musicBusEnsure_js_fields [of k s] en by simp
  have pc: "phraseCount s1 = phraseCount s"
    by (subst fr, simp)
  obtain x y z where chord: "chord = [x, y, z]"
    using chordAt_three [OF ch] by blast
  have c1': "ctx s1 \<noteq> None" using c1 by simp
  obtain s2 where "run_all [bassNote_js (chord ! 0) t MusicBus, arp_js chord t 0 MusicBus,
         arp_js chord t 2 MusicBus, bassNote_js (chord ! 0) (fl (t + BAR_js)) MusicBus,
         arp_js chord (fl (t + BAR_js)) 1 MusicBus,
         arp_js chord (fl (t + BAR_js)) 3 MusicBus,
         phrase_js t (phraseCount s1) MusicBus] s1 = (Returned, s2)"
    using block_js_emits [OF c1' t, of "chord ! 0" x y z "phraseCount s1"] chord by auto
  then show ?thesis
    using p en ch pc by (simp add: scheduleBars_js_def)
qed

lemma step_js:
  assumes w: "0 \<le> w" "w \<le> 2 ^ 20"
  shows "\<bar>fl (w + fl (BAR_js * 2)) - (w + 3.84)\<bar> \<le> 1 / 2 ^ 31"
    and "w + 3 \<le> fl (w + fl (BAR_js * 2))"
proof -
  have w0: "\<bar>w - w\<bar> \<le> 0" by simp
  have e: "\<bar>fl (w + fl (BAR_js * 2)) - (w + 3.84)\<bar> \<le> 0 + 1 / 2 ^ 40 + 1 / 2 ^ 32"
    using w by (intro fl_near_add [OF w0 consts_js(4)]) simp
  show "\<bar>fl (w + fl (BAR_js * 2)) - (w + 3.84)\<bar> \<le> 1 / 2 ^ 31"
    using e by simp
  have b: "(w + 3.84) - 1 / 2 ^ 31 \<le> fl (w + fl (BAR_js * 2)) \<and>
      fl (w + fl (BAR_js * 2)) \<le> (w + 3.84) + 1 / 2 ^ 31"
    by (rule near_bounds [OF e]) simp
  show "w + 3 \<le> fl (w + fl (BAR_js * 2))"
    using b by (simp; linarith)
qed

section \<open>The look-ahead loop in binary64\<close>

lemma loop_measure:
  fixes a w w' :: real
  assumes "w < a" "w + 3 \<le> w'"
  shows "nat \<lceil>(a - w') / 3\<rceil> < nat \<lceil>(a - w) / 3\<rceil>"
proof -
  have "a - w' \<le> (a - w) - 3" using assms(2) by linarith
  then have "(a - w') / 3 \<le> ((a - w) - 3) / 3" by (rule divide_right_mono) simp
  also have "\<dots> = (a - w) / 3 - 1" by (simp add: diff_divide_distrib)
  finally have "(a - w') / 3 \<le> (a - w) / 3 - 1" .
  then have "\<lceil>(a - w') / 3\<rceil> \<le> \<lceil>(a - w) / 3 - 1\<rceil>" by (rule ceiling_mono)
  then have le: "\<lceil>(a - w') / 3\<rceil> \<le> \<lceil>(a - w) / 3\<rceil> - 1" by simp
  have "0 < (a - w) / 3" using assms(1) by simp
  then have "0 < \<lceil>(a - w) / 3\<rceil>" by simp
  with le show ?thesis by simp
qed

lemma timed_start: "list_all (timed a1 a2 b1 b2) vs \<Longrightarrow> a \<le> a1 \<Longrightarrow> list_all (\<lambda>v. a \<le> startT v) vs"
  by (induction vs) (auto simp: timed_def)

lemma scheduleLoop_js_total:
  assumes "musicPlaying s" "0 \<le> musicScheduled s" "ahead \<le> 2 ^ 20"
  shows "\<exists>r s' n vs. scheduleLoop_js k ahead s = Some (r, s') \<and> musicPlaying s' \<and>
     musicScheduled s' = ((\<lambda>w. fl (w + fl (BAR_js * 2))) ^^ n) (musicScheduled s) \<and>
     phraseCount s' = phraseCount s + n \<and>
     musicScheduled s \<le> musicScheduled s' \<and>
     \<bar>musicScheduled s' - (musicScheduled s + real n * 3.84)\<bar> \<le> real n / 2 ^ 31 \<and>
     voices s' = voices s @ vs \<and> length vs = 20 * n \<and>
     list_all (\<lambda>v. musicScheduled s - 1 / 2 ^ 28 \<le> startT v) vs \<and>
     musicTimer s' = musicTimer s \<and> timers s' = timers s \<and> lastHandle s' = lastHandle s \<and>
     (r = Returned \<longrightarrow> \<not> musicScheduled s' < ahead)"
  using assms(1,2)
proof (induction "nat \<lceil>(ahead - musicScheduled s) / 3\<rceil>" arbitrary: s rule: less_induct)
  case less
  let ?w = "musicScheduled s"
  show ?case
  proof (cases "?w < ahead")
    case False
    then have "scheduleLoop_js k ahead s = Some (Returned, s)"
      by (subst scheduleLoop_js.simps) simp
    then show ?thesis
      using less.prems False
      by (intro exI [of _ Returned] exI [of _ s] exI [of _ 0] exI [of _ "[]"]) simp
  next
    case True
    have w: "0 \<le> ?w" "?w \<le> 2 ^ 20"
      using less.prems(2) True assms(3) by simp_all
    obtain o1 s1 where sb: "scheduleBars_js k ?w s = (o1, s1)"
      by (cases "scheduleBars_js k ?w s")
    show ?thesis
    proof (cases o1)
      case (Threw e)
      obtain c m b where s1: "s1 = s\<lparr>ctx := c, master := m, musicBus := b\<rparr>"
        using scheduleBars_js_threw [OF sb [unfolded Threw] w] by blast
      have "scheduleLoop_js k ahead s = Some (Threw e, s1)"
        using True sb Threw by (subst scheduleLoop_js.simps) simp
      then show ?thesis
        using less.prems s1
        by (intro exI [of _ "Threw e"] exI [of _ s1] exI [of _ 0] exI [of _ "[]"]) simp
    next
      case Returned
      obtain c m b pre fin mel where
        s1: "s1 = s\<lparr>ctx := Some c, master := m, musicBus := b,
            voices := voices s @ pre @ fin @ mel,
            phraseCount := phraseCount s + 1, musicScheduled := fl (?w + fl (BAR_js * 2))\<rparr>"
        and len: "length pre = 11" "length fin = 3" "length mel = 6"
        and seg: "list_all (timed (?w - 1 / 2 ^ 28) (?w + 2.52) ?w (?w + 3.33)) pre"
          "list_all (timed (?w + 3.35) (?w + 3.48) (?w + 4.16) (?w + 4.289)) fin"
          "list_all (timed (?w - 1 / 2 ^ 28) (?w + 1.45) ?w (?w + 1.75)) mel"
        using scheduleBars_js_returned [OF less.prems(1) sb [unfolded Returned] w] by blast
      note st = step_js [OF w]
      have m1: "musicScheduled s1 = fl (?w + fl (BAR_js * 2))"
        and p1: "phraseCount s1 = phraseCount s + 1"
        and v1: "voices s1 = voices s @ pre @ fin @ mel"
        and f1: "musicTimer s1 = musicTimer s" "timers s1 = timers s" "lastHandle s1 = lastHandle s"
        and pl: "musicPlaying s1"
        using s1 less.prems(1) by simp_all
      have up: "?w \<le> musicScheduled s1" using st(2) m1 by linarith
      have nn: "0 \<le> musicScheduled s1" using up w(1) by linarith
      have dec: "nat \<lceil>(ahead - musicScheduled s1) / 3\<rceil> < nat \<lceil>(ahead - ?w) / 3\<rceil>"
        using True st(2) unfolding m1 by (rule loop_measure)
      obtain r s' n ws where ih: "scheduleLoop_js k ahead s1 = Some (r, s')" "musicPlaying s'"
        "musicScheduled s' = ((\<lambda>w. fl (w + fl (BAR_js * 2))) ^^ n) (musicScheduled s1)"
        "phraseCount s' = phraseCount s1 + n"
        "musicScheduled s1 \<le> musicScheduled s'"
        "\<bar>musicScheduled s' - (musicScheduled s1 + real n * 3.84)\<bar> \<le> real n / 2 ^ 31"
        "voices s' = voices s1 @ ws" "length ws = 20 * n"
        "list_all (\<lambda>v. musicScheduled s1 - 1 / 2 ^ 28 \<le> startT v) ws"
        "musicTimer s' = musicTimer s1" "timers s' = timers s1" "lastHandle s' = lastHandle s1"
        "r = Returned \<longrightarrow> \<not> musicScheduled s' < ahead"
        using less.hyps [OF dec pl nn] by blast
      have loop: "scheduleLoop_js k ahead s = Some (r, s')"
        using True sb Returned ih(1) by (subst scheduleLoop_js.simps) simp
      have it: "musicScheduled s' = ((\<lambda>w. fl (w + fl (BAR_js * 2))) ^^ Suc n) ?w"
        unfolding ih(3) m1 by (simp only: funpow_Suc_right o_apply)
      have ap: "\<bar>musicScheduled s' - (?w + real (Suc n) * 3.84)\<bar> \<le> real (Suc n) / 2 ^ 31"
      proof -
        have a: "\<bar>musicScheduled s1 - (?w + 3.84)\<bar> \<le> 1 / 2 ^ 31"
          using st(1) m1 by simp
        have "\<bar>musicScheduled s' - (?w + 3.84 + real n * 3.84)\<bar> \<le> real n / 2 ^ 31 + 1 / 2 ^ 31"
          using ih(6) a by linarith
        then show ?thesis by (simp add: algebra_simps add_divide_distrib)
      qed
      have s0: "list_all (\<lambda>v. ?w - 1 / 2 ^ 28 \<le> startT v) pre"
        "list_all (\<lambda>v. ?w - 1 / 2 ^ 28 \<le> startT v) fin"
        "list_all (\<lambda>v. ?w - 1 / 2 ^ 28 \<le> startT v) mel"
        by (rule timed_start [OF seg(1)], simp, rule timed_start [OF seg(2)], simp,
            rule timed_start [OF seg(3)], simp)
      have s2: "list_all (\<lambda>v. ?w - 1 / 2 ^ 28 \<le> startT v) ws"
      proof (rule list_all_weaken [OF ih(9)])
        fix v assume "musicScheduled s1 - 1 / 2 ^ 28 \<le> startT v"
        then show "?w - 1 / 2 ^ 28 \<le> startT v" using up by linarith
      qed
      show ?thesis
        using loop ih(2) it ih(4) p1 ih(5) up ap ih(7) v1 ih(8) len s0 s2 ih(10-13) f1
        by (intro exI [of _ r] exI [of _ s'] exI [of _ "Suc n"] exI [of _ "pre @ fin @ mel @ ws"])
           simp
    qed
  qed
qed

lemma getCtx_js_fields:
  "snd (getCtx_js k s) = s\<lparr>ctx := ctx (snd (getCtx_js k s)), master := master (snd (getCtx_js k s))\<rparr>"
  by (cases "ctx s"; cases k) (simp_all add: getCtx_js_def)

lemma getCtx_js_present: "ctx s = Some c \<Longrightarrow> getCtx_js k s = (Returned, s)"
  by (simp add: getCtx_js_def)

lemma getCtx_js_threw: "getCtx_js k s = (Threw e, s1) \<Longrightarrow> s1 = s"
  by (cases "ctx s"; cases k) (auto simp: getCtx_js_def)

lemma getCtx_js_clock:
  "getCtx_js k s = (Returned, s1) \<Longrightarrow> ctx s1 = Some c \<Longrightarrow> currentTime c = now s"
  by (cases "ctx s"; cases k) (auto simp: getCtx_js_def now_def)

lemma ahead_js:
  assumes "0 \<le> t" "t \<le> 10 ^ 6"
  shows "fl (t + AHEAD_js) \<le> 2 ^ 20" "t + 3.83 \<le> fl (t + AHEAD_js)" "fl (t + AHEAD_js) \<le> t + 3.85"
proof -
  have t0: "\<bar>t - t\<bar> \<le> 0" by simp
  have e: "\<bar>fl (t + AHEAD_js) - (t + 3.84)\<bar> \<le> 0 + 1 / 2 ^ 40 + 1 / 2 ^ 32"
    using assms by (intro fl_near_add [OF t0 consts_js(3)]) simp
  have b: "(t + 3.84) - 1 / 2 ^ 31 \<le> fl (t + AHEAD_js) \<and> fl (t + AHEAD_js) \<le> (t + 3.84) + 1 / 2 ^ 31"
    by (rule near_bounds [OF e]) simp
  show "fl (t + AHEAD_js) \<le> 2 ^ 20" using b assms by (simp; linarith)
  show "t + 3.83 \<le> fl (t + AHEAD_js)" using b by (simp; linarith)
  show "fl (t + AHEAD_js) \<le> t + 3.85" using b by (simp; linarith)
qed

text \<open>
  C3. A tick that runs while the scheduler is running ends (it returns, or it stops at a
  throw). The watermark after it is the watermark before it with the 2-bar duration
  added \<open>n\<close> times, each sum rounded to binary64, where \<open>n\<close> is the number of blocks
  the tick generated; it is at least the watermark before, and the increase is within
  \<open>n / 2 ^ 31\<close> seconds of \<open>n\<close> times 3.84 s. The clock and the watermark are taken
  from 0 to \<open>10 ^ 6\<close> seconds (eleven days of audio time), far below the magnitude at
  which rounding would absorb the addition of 3.84.
\<close>

theorem tick_advances_watermark_js:
  assumes "musicPlaying s" "0 \<le> musicScheduled s" "0 \<le> now s" "now s \<le> 10 ^ 6"
  shows "\<exists>r s' n. musicTick_js k s = Some (r, s') \<and>
     musicScheduled s \<le> musicScheduled s' \<and>
     musicScheduled s' = ((\<lambda>w. fl (w + fl (BAR_js * 2))) ^^ n) (musicScheduled s) \<and>
     phraseCount s' = phraseCount s + n \<and>
     \<bar>musicScheduled s' - musicScheduled s - real n * 3.84\<bar> \<le> real n / 2 ^ 31"
proof -
  obtain o1 s1 where g: "getCtx_js k s = (o1, s1)"
    by (cases "getCtx_js k s")
  have fr: "s1 = s\<lparr>ctx := ctx s1, master := master s1\<rparr>"
    using getCtx_js_fields [of k s] g by simp
  have keep: "musicPlaying s1" "musicScheduled s1 = musicScheduled s" "phraseCount s1 = phraseCount s"
    using assms(1) by (subst fr, simp)+
  show ?thesis
  proof (cases o1)
    case (Threw e)
    then have "musicTick_js k s = Some (Threw e, s1)"
      using assms(1) g by (simp add: musicTick_js_def)
    then show ?thesis
      using keep by (intro exI [of _ "Threw e"] exI [of _ s1] exI [of _ 0]) simp
  next
    case Returned
    show ?thesis
    proof (cases "ctx s1")
      case None
      then have "musicTick_js k s = Some (Threw TypeError, s1)"
        using assms(1) g Returned by (simp add: musicTick_js_def)
      then show ?thesis
        using keep by (intro exI [of _ "Threw TypeError"] exI [of _ s1] exI [of _ 0]) simp
    next
      case (Some c)
      have ct: "currentTime c = now s"
        using getCtx_js_clock [OF g [unfolded Returned] Some] .
      have ah: "fl (currentTime c + AHEAD_js) \<le> 2 ^ 20"
        unfolding ct using assms(3,4) by (rule ahead_js(1))
      have nn: "0 \<le> musicScheduled s1" using assms(2) keep(2) by simp
      obtain r s2 n where loop: "scheduleLoop_js k (fl (currentTime c + AHEAD_js)) s1 = Some (r, s2)"
        and w: "musicScheduled s2 = ((\<lambda>w. fl (w + fl (BAR_js * 2))) ^^ n) (musicScheduled s1)"
        and p: "phraseCount s2 = phraseCount s1 + n"
        and up: "musicScheduled s1 \<le> musicScheduled s2"
        and ap: "\<bar>musicScheduled s2 - (musicScheduled s1 + real n * 3.84)\<bar> \<le> real n / 2 ^ 31"
        using scheduleLoop_js_total [OF keep(1) nn ah, of k] by blast
      have ap': "\<bar>musicScheduled s2 - musicScheduled s - real n * 3.84\<bar> \<le> real n / 2 ^ 31"
        using ap unfolding keep(2) by (simp add: algebra_simps)
      show ?thesis
      proof (cases r)
        case (Threw e)
        then have "musicTick_js k s = Some (Threw e, s2)"
          using assms(1) g \<open>o1 = Returned\<close> Some loop by (simp add: musicTick_js_def)
        then show ?thesis
          using w p up ap' keep by (intro exI [of _ "Threw e"] exI [of _ s2] exI [of _ n]) simp
      next
        case Returned
        let ?s3 = "(snd (setTimeout TickCallback (fl (fl (BAR_js * 1000) / 2)) s2))
                \<lparr>musicTimer := Some (fst (setTimeout TickCallback (fl (fl (BAR_js * 1000) / 2)) s2))\<rparr>"
        have "musicTick_js k s = Some (Returned, ?s3)"
          using assms(1) g \<open>o1 = Returned\<close> Some loop Returned
          by (simp add: musicTick_js_def Let_def split: prod.splits)
        moreover have "musicScheduled ?s3 = musicScheduled s2" "phraseCount ?s3 = phraseCount s2"
          by (simp_all add: setTimeout_def Let_def)
        ultimately show ?thesis
          using w p up ap' keep by (intro exI [of _ Returned] exI [of _ ?s3] exI [of _ n]) simp
      qed
    qed
  qed
qed

lemma musicTick_js_one:
  assumes p: "musicPlaying s" and c: "ctx s = Some c"
    and ch: "chordAt (chordIndex (phraseCount s)) = Some chord"
    and w: "0 \<le> musicScheduled s" "musicScheduled s \<le> 2 ^ 20"
    and lt: "musicScheduled s < fl (currentTime c + AHEAD_js)"
    and ge: "\<not> fl (musicScheduled s + fl (BAR_js * 2)) < fl (currentTime c + AHEAD_js)"
  shows "\<exists>s1. scheduleBars_js k (musicScheduled s) s = (Returned, s1) \<and>
     musicTick_js k s = Some (Returned,
       s1\<lparr>timers := timers s1 @ [\<lparr>handle = Suc (lastHandle s1), callback = TickCallback,
                                   delayMs = fl (fl (BAR_js * 1000) / 2)\<rparr>],
           lastHandle := Suc (lastHandle s1), musicTimer := Some (Suc (lastHandle s1))\<rparr>)"
proof -
  obtain s1 where sb: "scheduleBars_js k (musicScheduled s) s = (Returned, s1)"
    using scheduleBars_js_returns [OF p c ch w, of k]
    by (cases "scheduleBars_js k (musicScheduled s) s") simp
  have m1: "musicScheduled s1 = fl (musicScheduled s + fl (BAR_js * 2))"
    using scheduleBars_js_returned [OF p sb w] by auto
  have l1: "scheduleLoop_js k (fl (currentTime c + AHEAD_js)) s1 = Some (Returned, s1)"
    using ge m1 by (subst scheduleLoop_js.simps) simp
  have l0: "scheduleLoop_js k (fl (currentTime c + AHEAD_js)) s = Some (Returned, s1)"
    using lt sb l1 by (subst scheduleLoop_js.simps) simp
  have "musicTick_js k s = Some (Returned,
       s1\<lparr>timers := timers s1 @ [\<lparr>handle = Suc (lastHandle s1), callback = TickCallback,
                                   delayMs = fl (fl (BAR_js * 1000) / 2)\<rparr>],
           lastHandle := Suc (lastHandle s1), musicTimer := Some (Suc (lastHandle s1))\<rparr>)"
    using p c l0 by (simp add: musicTick_js_def getCtx_js_def setTimeout_def Let_def)
  with sb show ?thesis by blast
qed

lemma secondTick_js_values:
  "musicScheduled secondTick_js = 8872091265919877 / 2 ^ 51"
  "fl (musicScheduled secondTick_js + fl (BAR_js * 2)) = 4379750637617807 / 2 ^ 49"
  "fl (fl 0.96 + AHEAD_js) = 5404319552844595 / 2 ^ 50"
  "fl (BAR_js * 2) = 1080863910568919 / 2 ^ 48"
  by (simp_all add: secondTick_js_def BAR_js_def AHEAD_js_def fl_eval)

lemma secondTick_js_tick:
  "\<exists>s'. musicTick_js k secondTick_js = Some (Returned, s') \<and> phraseCount s' = 2 \<and>
     musicScheduled s' = 4379750637617807 / 2 ^ 49"
proof -
  have p: "musicPlaying secondTick_js"
    and c: "ctx secondTick_js = Some \<lparr>acState = Running, currentTime = fl 0.96\<rparr>"
    and n: "phraseCount secondTick_js = 1"
    by (simp_all add: secondTick_js_def)
  have ch: "chordAt (chordIndex (phraseCount secondTick_js)) = Some [294, 370, 440]"
    unfolding n by (simp add: chordAt_def chordIndex_def toInt32_def js_rem_def CHORDS_def)
  have w: "0 \<le> musicScheduled secondTick_js" "musicScheduled secondTick_js \<le> 2 ^ 20"
    unfolding secondTick_js_values by simp_all
  have lt: "musicScheduled secondTick_js
      < fl (currentTime \<lparr>acState = Running, currentTime = fl 0.96\<rparr> + AHEAD_js)"
    using secondTick_js_values(1,3) by simp
  have ge: "\<not> fl (musicScheduled secondTick_js + fl (BAR_js * 2))
      < fl (currentTime \<lparr>acState = Running, currentTime = fl 0.96\<rparr> + AHEAD_js)"
    using secondTick_js_values(2,3) by simp
  obtain s1 where sb: "scheduleBars_js k (musicScheduled secondTick_js) secondTick_js = (Returned, s1)"
    and tk: "musicTick_js k secondTick_js = Some (Returned,
       s1\<lparr>timers := timers s1 @ [\<lparr>handle = Suc (lastHandle s1), callback = TickCallback,
                                   delayMs = fl (fl (BAR_js * 1000) / 2)\<rparr>],
           lastHandle := Suc (lastHandle s1), musicTimer := Some (Suc (lastHandle s1))\<rparr>)"
    using musicTick_js_one [OF p c ch w lt ge, of k] by blast
  have "phraseCount s1 = 2" "musicScheduled s1 = 4379750637617807 / 2 ^ 49"
    using scheduleBars_js_returned [OF p sb w] n secondTick_js_values(2) by auto
  then show ?thesis using tk by simp
qed

text \<open>The statement of C3, with its hypotheses, at the second tick after a start at clock 0.\<close>

theorem tick_advances_watermark_js_witness:
  "musicPlaying secondTick_js \<and> 0 \<le> musicScheduled secondTick_js \<and>
   0 \<le> now secondTick_js \<and> now secondTick_js \<le> 10 ^ 6 \<and>
   (\<exists>r s' n. musicTick_js (CtorMakes Running) secondTick_js = Some (r, s') \<and>
     musicScheduled secondTick_js \<le> musicScheduled s' \<and>
     musicScheduled s' = ((\<lambda>w. fl (w + fl (BAR_js * 2))) ^^ n) (musicScheduled secondTick_js) \<and>
     phraseCount s' = phraseCount secondTick_js + n \<and>
     \<bar>musicScheduled s' - musicScheduled secondTick_js - real n * 3.84\<bar> \<le> real n / 2 ^ 31)"
proof -
  have h: "musicPlaying secondTick_js" "0 \<le> musicScheduled secondTick_js"
    "0 \<le> now secondTick_js" "now secondTick_js \<le> 10 ^ 6"
    by (simp_all add: secondTick_js_def now_def BAR_js_def fl_eval)
  show ?thesis
    using tick_advances_watermark_js [OF h, of "CtorMakes Running"] h by blast
qed

text \<open>
  C3, as stated, fails at the second tick after a start at clock 0. The watermark is
  the double \<open>0.1 + 3.84\<close> (3.94), the clock reads 0.96, the tick generates one block,
  and the new watermark is the double \<open>3.94 + 3.84\<close>, which is 7.779999999999999.
  The increase is \<open>2 ^ -51\<close> short of the 2-bar duration (the double 3.84): more than
  zero and less than one 2-bar duration, so no integer multiple of it.
\<close>

theorem second_tick_increase_inexact:
  "musicScheduled secondTick_js = 8872091265919877 / 2 ^ 51 \<and>
   fl (BAR_js * 2) = 1080863910568919 / 2 ^ 48 \<and>
   fst (the (musicTick_js (CtorMakes Running) secondTick_js)) = Returned \<and>
   musicScheduled (snd (the (musicTick_js (CtorMakes Running) secondTick_js))) =
     4379750637617807 / 2 ^ 49 \<and>
   phraseCount (snd (the (musicTick_js (CtorMakes Running) secondTick_js))) =
     phraseCount secondTick_js + 1 \<and>
   musicScheduled (snd (the (musicTick_js (CtorMakes Running) secondTick_js))) -
     musicScheduled secondTick_js = fl (BAR_js * 2) - 1 / 2 ^ 51 \<and>
   0 < musicScheduled (snd (the (musicTick_js (CtorMakes Running) secondTick_js))) -
     musicScheduled secondTick_js \<and>
   musicScheduled (snd (the (musicTick_js (CtorMakes Running) secondTick_js))) -
     musicScheduled secondTick_js < fl (BAR_js * 2)"
proof -
  obtain s' where tk: "musicTick_js (CtorMakes Running) secondTick_js = Some (Returned, s')"
    and s': "phraseCount s' = 2" "musicScheduled s' = 4379750637617807 / 2 ^ 49"
    using secondTick_js_tick [of "CtorMakes Running"] by blast
  have n: "phraseCount secondTick_js = 1" by (simp add: secondTick_js_def)
  show ?thesis
    unfolding tk using s' n by (simp add: secondTick_js_values)
qed

lemma scheduleLoop_js_step:
  assumes p: "musicPlaying s" and c: "ctx s = Some c"
    and ch: "chordAt (chordIndex (phraseCount s)) = Some chord"
    and w: "0 \<le> musicScheduled s" "musicScheduled s \<le> 2 ^ 20"
    and lt: "musicScheduled s < ahead"
  shows "\<exists>s1 c1. scheduleLoop_js k ahead s = scheduleLoop_js k ahead s1 \<and> musicPlaying s1 \<and>
     ctx s1 = Some c1 \<and> phraseCount s1 = phraseCount s + 1 \<and>
     musicScheduled s1 = fl (musicScheduled s + fl (BAR_js * 2)) \<and>
     length (voices s1) = length (voices s) + 20 \<and>
     timers s1 = timers s \<and> lastHandle s1 = lastHandle s"
proof -
  obtain s1 where sb: "scheduleBars_js k (musicScheduled s) s = (Returned, s1)"
    using scheduleBars_js_returns [OF p c ch w, of k]
    by (cases "scheduleBars_js k (musicScheduled s) s") simp
  have l: "scheduleLoop_js k ahead s = scheduleLoop_js k ahead s1"
    using lt sb by (subst scheduleLoop_js.simps) simp
  have "\<exists>c1. musicPlaying s1 \<and> ctx s1 = Some c1 \<and> phraseCount s1 = phraseCount s + 1 \<and>
     musicScheduled s1 = fl (musicScheduled s + fl (BAR_js * 2)) \<and>
     length (voices s1) = length (voices s) + 20 \<and>
     timers s1 = timers s \<and> lastHandle s1 = lastHandle s"
    using scheduleBars_js_returned [OF p sb w] p by auto
  with l show ?thesis by blast
qed

lemma lateTick_js_values:
  "musicScheduled lateTick_js = 8872091265919877 / 2 ^ 51"
  "fl (8872091265919877 / 2 ^ 51 + fl (BAR_js * 2)) = 4379750637617807 / 2 ^ 49"
  "fl (4379750637617807 / 2 ^ 49 + fl (BAR_js * 2)) = 6541478458755645 / 2 ^ 49"
  "fl (6541478458755645 / 2 ^ 49 + fl (BAR_js * 2)) = 8703206279893483 / 2 ^ 49"
  "fl (fl 7.78 + AHEAD_js) = 6541478458755646 / 2 ^ 49"
  by (simp_all add: lateTick_js_def secondTick_js_def BAR_js_def AHEAD_js_def fl_eval)

lemma chords_defined:
  "chordAt (chordIndex 1) = Some [294, 370, 440]" "chordAt (chordIndex 2) = Some [440, 554, 659]"
  "chordAt (chordIndex 3) = Some [440, 554, 659]"
  by (simp_all add: chordAt_def chordIndex_def toInt32_def js_rem_def CHORDS_def)

text \<open>
  A tick that fires late, at clock 7.78 with the watermark at the double 3.94, generates
  three blocks: the third one because the double \<open>3.94 + 3.84 + 3.84\<close>, which is 11.62,
  is less than the double \<open>7.78 + 3.84\<close>, which is 11.620000000000001. In exact
  arithmetic both sums are 11.62 and the loop would stop after two blocks.
\<close>

lemma late_tick_three_blocks:
  "\<exists>s'. musicTick_js k lateTick_js = Some (Returned, s') \<and> phraseCount s' = 4 \<and>
     musicScheduled s' = 8703206279893483 / 2 ^ 49 \<and> length (voices s') = 60"
proof -
  let ?ahead = "fl (fl 7.78 + AHEAD_js)"
  have s0: "musicPlaying lateTick_js"
    "ctx lateTick_js = Some \<lparr>acState = Running, currentTime = fl 7.78\<rparr>"
    "phraseCount lateTick_js = 1" "voices lateTick_js = []"
    by (simp_all add: lateTick_js_def secondTick_js_def)
  note v = lateTick_js_values
  have ch0: "chordAt (chordIndex (phraseCount lateTick_js)) = Some [294, 370, 440]"
    unfolding s0(3) by (rule chords_defined)
  have w0: "0 \<le> musicScheduled lateTick_js" "musicScheduled lateTick_js \<le> 2 ^ 20"
    "musicScheduled lateTick_js < ?ahead"
    unfolding v by simp_all
  obtain s1 c1 where s1: "scheduleLoop_js k ?ahead lateTick_js = scheduleLoop_js k ?ahead s1"
    "musicPlaying s1" "ctx s1 = Some c1" "phraseCount s1 = 2"
    "musicScheduled s1 = 4379750637617807 / 2 ^ 49" "length (voices s1) = 20"
    using scheduleLoop_js_step [OF s0(1,2) ch0 w0, of k] s0(3,4) v(1,2) by auto
  have ch1: "chordAt (chordIndex (phraseCount s1)) = Some [440, 554, 659]"
    unfolding s1(4) by (rule chords_defined)
  have w1: "0 \<le> musicScheduled s1" "musicScheduled s1 \<le> 2 ^ 20" "musicScheduled s1 < ?ahead"
    unfolding s1(5) v by simp_all
  obtain s2 c2 where s2: "scheduleLoop_js k ?ahead s1 = scheduleLoop_js k ?ahead s2"
    "musicPlaying s2" "ctx s2 = Some c2" "phraseCount s2 = 3"
    "musicScheduled s2 = 6541478458755645 / 2 ^ 49" "length (voices s2) = 40"
    using scheduleLoop_js_step [OF s1(2,3) ch1 w1, of k] s1(4,5,6) v(3) by auto
  have ch2: "chordAt (chordIndex (phraseCount s2)) = Some [440, 554, 659]"
    unfolding s2(4) by (rule chords_defined)
  have w2: "0 \<le> musicScheduled s2" "musicScheduled s2 \<le> 2 ^ 20" "musicScheduled s2 < ?ahead"
    unfolding s2(5) v by simp_all
  obtain s3 c3 where s3: "scheduleLoop_js k ?ahead s2 = scheduleLoop_js k ?ahead s3"
    "musicPlaying s3" "ctx s3 = Some c3" "phraseCount s3 = 4"
    "musicScheduled s3 = 8703206279893483 / 2 ^ 49" "length (voices s3) = 60"
    using scheduleLoop_js_step [OF s2(2,3) ch2 w2, of k] s2(4,5,6) v(4) by auto
  have "\<not> musicScheduled s3 < ?ahead"
    unfolding s3(5) v by simp
  then have "scheduleLoop_js k ?ahead s3 = Some (Returned, s3)"
    by (subst scheduleLoop_js.simps) simp
  then have loop: "scheduleLoop_js k ?ahead lateTick_js = Some (Returned, s3)"
    using s1(1) s2(1) s3(1) by simp
  have "musicTick_js k lateTick_js = Some (Returned,
       s3\<lparr>timers := timers s3 @ [\<lparr>handle = Suc (lastHandle s3), callback = TickCallback,
                                   delayMs = fl (fl (BAR_js * 1000) / 2)\<rparr>],
           lastHandle := Suc (lastHandle s3), musicTimer := Some (Suc (lastHandle s3))\<rparr>)"
    using s0(1,2) loop by (simp add: musicTick_js_def getCtx_js_def setTimeout_def Let_def)
  then show ?thesis
    using s3(4,5,6) by simp
qed

text \<open>
  Why the tick is stated for a bounded clock: from \<open>2 ^ 55\<close> seconds on, the sum of the
  watermark and the 2-bar duration rounds back to the watermark, and a block would no
  longer advance it.
\<close>

lemma watermark_absorbed: "fl (2 ^ 55 + fl (BAR_js * 2)) = 2 ^ 55"
  by (simp add: BAR_js_def fl_eval)

section \<open>A block and the watermark in binary64\<close>

text \<open>
  C4. A block generated from \<open>fromT\<close> (between 0 and \<open>2 ^ 20\<close> seconds) schedules 20
  voices in three runs: eleven (the two bass notes, the arpeggios on beats 0 and 2 of
  bar 1 and on beat 1 of bar 2), then the three notes of the arpeggio on beat 3 of bar
  2, then the six melody notes. Every voice of the first and of the last run, the most
  recently generated one included, has its envelope end and its oscillator stop at or
  before the new watermark. The three notes of the final arpeggio start before the
  watermark and end after it, their oscillators stopping at most 0.45 s after it.
\<close>

theorem block_notes_and_watermark_js:
  assumes "musicPlaying s" and "scheduleBars_js k fromT s = (Returned, s')"
    and "0 \<le> fromT" and "fromT \<le> 2 ^ 20"
  shows "\<exists>pre fin mel. voices s' = voices s @ pre @ fin @ mel \<and>
     length pre = 11 \<and> length fin = 3 \<and> length mel = 6 \<and>
     musicScheduled s' = fl (fromT + fl (BAR_js * 2)) \<and>
     list_all (\<lambda>v. envEnd v \<le> stopT v \<and> stopT v \<le> musicScheduled s') (pre @ mel) \<and>
     list_all (\<lambda>v. startT v < musicScheduled s' \<and> musicScheduled s' < envEnd v \<and>
                  envEnd v \<le> stopT v \<and> stopT v \<le> musicScheduled s' + 0.45) fin"
proof -
  obtain c m b pre fin mel where
    s': "s' = s\<lparr>ctx := Some c, master := m, musicBus := b,
            voices := voices s @ pre @ fin @ mel,
            phraseCount := phraseCount s + 1, musicScheduled := fl (fromT + fl (BAR_js * 2))\<rparr>"
    and len: "length pre = 11" "length fin = 3" "length mel = 6"
    and seg: "list_all (timed (fromT - 1 / 2 ^ 28) (fromT + 2.52) fromT (fromT + 3.33)) pre"
      "list_all (timed (fromT + 3.35) (fromT + 3.48) (fromT + 4.16) (fromT + 4.289)) fin"
      "list_all (timed (fromT - 1 / 2 ^ 28) (fromT + 1.45) fromT (fromT + 1.75)) mel"
    using scheduleBars_js_returned [OF assms] by blast
  have m: "musicScheduled s' = fl (fromT + fl (BAR_js * 2))"
    and v: "voices s' = voices s @ pre @ fin @ mel"
    using s' by simp_all
  have b: "(fromT + 3.84) - 1 / 2 ^ 31 \<le> musicScheduled s' \<and>
      musicScheduled s' \<le> (fromT + 3.84) + 1 / 2 ^ 31"
    unfolding m by (rule near_bounds [OF step_js(1) [OF assms(3,4)]]) simp
  have p1: "list_all (\<lambda>v. envEnd v \<le> stopT v \<and> stopT v \<le> musicScheduled s') pre"
  proof (rule list_all_weaken [OF seg(1)])
    fix v assume "timed (fromT - 1 / 2 ^ 28) (fromT + 2.52) fromT (fromT + 3.33) v"
    then show "envEnd v \<le> stopT v \<and> stopT v \<le> musicScheduled s'"
      using b unfolding timed_def by (simp; linarith)
  qed
  have p3: "list_all (\<lambda>v. envEnd v \<le> stopT v \<and> stopT v \<le> musicScheduled s') mel"
  proof (rule list_all_weaken [OF seg(3)])
    fix v assume "timed (fromT - 1 / 2 ^ 28) (fromT + 1.45) fromT (fromT + 1.75) v"
    then show "envEnd v \<le> stopT v \<and> stopT v \<le> musicScheduled s'"
      using b unfolding timed_def by (simp; linarith)
  qed
  have p2: "list_all (\<lambda>v. startT v < musicScheduled s' \<and> musicScheduled s' < envEnd v \<and>
                  envEnd v \<le> stopT v \<and> stopT v \<le> musicScheduled s' + 0.45) fin"
  proof (rule list_all_weaken [OF seg(2)])
    fix v assume "timed (fromT + 3.35) (fromT + 3.48) (fromT + 4.16) (fromT + 4.289) v"
    then show "startT v < musicScheduled s' \<and> musicScheduled s' < envEnd v \<and>
                  envEnd v \<le> stopT v \<and> stopT v \<le> musicScheduled s' + 0.45"
      using b unfolding timed_def by (simp; linarith)
  qed
  show ?thesis
    using v len m p1 p2 p3
    by (intro exI [of _ pre] exI [of _ fin] exI [of _ mel]) simp
qed

text \<open>The statement of C4, with its hypotheses, on the block that the second tick generates.\<close>

theorem block_notes_and_watermark_js_witness:
  "musicPlaying secondTick_js \<and>
   scheduleBars_js (CtorMakes Running) (musicScheduled secondTick_js) secondTick_js =
     (Returned, snd (scheduleBars_js (CtorMakes Running) (musicScheduled secondTick_js) secondTick_js)) \<and>
   0 \<le> musicScheduled secondTick_js \<and> musicScheduled secondTick_js \<le> 2 ^ 20 \<and>
   (\<exists>pre fin mel.
     voices (snd (scheduleBars_js (CtorMakes Running) (musicScheduled secondTick_js) secondTick_js))
       = voices secondTick_js @ pre @ fin @ mel \<and>
     length pre = 11 \<and> length fin = 3 \<and> length mel = 6 \<and>
     musicScheduled (snd (scheduleBars_js (CtorMakes Running) (musicScheduled secondTick_js) secondTick_js))
       = fl (musicScheduled secondTick_js + fl (BAR_js * 2)) \<and>
     list_all (\<lambda>v. envEnd v \<le> stopT v \<and> stopT v \<le>
       musicScheduled (snd (scheduleBars_js (CtorMakes Running) (musicScheduled secondTick_js) secondTick_js)))
       (pre @ mel) \<and>
     list_all (\<lambda>v. startT v <
         musicScheduled (snd (scheduleBars_js (CtorMakes Running) (musicScheduled secondTick_js) secondTick_js)) \<and>
       musicScheduled (snd (scheduleBars_js (CtorMakes Running) (musicScheduled secondTick_js) secondTick_js))
         < envEnd v \<and>
       envEnd v \<le> stopT v \<and> stopT v \<le>
       musicScheduled (snd (scheduleBars_js (CtorMakes Running) (musicScheduled secondTick_js) secondTick_js))
         + 0.45) fin)"
proof -
  have p: "musicPlaying secondTick_js"
    and c: "ctx secondTick_js = Some \<lparr>acState = Running, currentTime = fl 0.96\<rparr>"
    and n: "phraseCount secondTick_js = 1"
    by (simp_all add: secondTick_js_def)
  have ch: "chordAt (chordIndex (phraseCount secondTick_js)) = Some [294, 370, 440]"
    unfolding n by (simp add: chordAt_def chordIndex_def toInt32_def js_rem_def CHORDS_def)
  have w: "0 \<le> musicScheduled secondTick_js" "musicScheduled secondTick_js \<le> 2 ^ 20"
    unfolding secondTick_js_values by simp_all
  have r: "scheduleBars_js (CtorMakes Running) (musicScheduled secondTick_js) secondTick_js =
     (Returned, snd (scheduleBars_js (CtorMakes Running) (musicScheduled secondTick_js) secondTick_js))"
    using scheduleBars_js_returns [OF p c ch w, of "CtorMakes Running"]
    by (cases "scheduleBars_js (CtorMakes Running) (musicScheduled secondTick_js) secondTick_js") simp
  show ?thesis
    using block_notes_and_watermark_js [OF p r w] p r w by blast
qed

section \<open>Stop, then start\<close>

lemma start_offset_js:
  assumes "0 \<le> t" "t \<le> 10 ^ 6"
  shows "t + 0.09 \<le> fl (t + fl 0.1)" "fl (t + fl 0.1) \<le> t + 0.11"
proof -
  have t0: "\<bar>t - t\<bar> \<le> 0" by simp
  have e: "\<bar>fl (t + fl 0.1) - (t + 0.1)\<bar> \<le> 0 + 1 / 2 ^ 40 + 1 / 2 ^ 32"
    using assms by (intro fl_near_add [OF t0 consts_js(5)]) simp
  have b: "(t + 0.1) - 1 / 2 ^ 31 \<le> fl (t + fl 0.1) \<and> fl (t + fl 0.1) \<le> (t + 0.1) + 1 / 2 ^ 31"
    by (rule near_bounds [OF e]) simp
  show "t + 0.09 \<le> fl (t + fl 0.1)" using b by (simp; linarith)
  show "fl (t + fl 0.1) \<le> t + 0.11" using b by (simp; linarith)
qed

lemma start_callback_js:
  assumes c: "ctx x = Some c" and t: "0 \<le> currentTime c" "currentTime c \<le> 10 ^ 6"
  shows "\<exists>x0 x' vs. musicStart_init_js k x = (Returned, x0) \<and> phraseCount x0 = 0 \<and>
     musicScheduled x0 = fl (currentTime c + fl 0.1) \<and> currentTime c < musicScheduled x0 \<and>
     musicStart_then_js k x = Some (Returned, x') \<and> musicPlaying x' \<and> phraseCount x' = 1 \<and>
     musicScheduled x' = fl (musicScheduled x0 + fl (BAR_js * 2)) \<and>
     voices x' = voices x @ vs \<and> length vs = 20 \<and>
     list_all (\<lambda>v. currentTime c < startT v) vs"
proof -
  obtain s1 where en: "musicBusEnsure_js k x = (Returned, s1)" and c1: "ctx s1 = Some c"
    using musicBusEnsure_js_present [OF c, of k] by (cases "musicBusEnsure_js k x") simp
  have fr: "s1 = x\<lparr>ctx := ctx s1, master := master s1, musicBus := musicBus s1\<rparr>"
    using musicBusEnsure_js_fields [of k x] en by simp
  have v1: "voices s1 = voices x"
    by (subst fr, simp)
  let ?w0 = "fl (currentTime c + fl 0.1)"
  let ?x0 = "s1\<lparr>musicPlaying := True, musicScheduled := ?w0, phraseCount := 0\<rparr>"
  have init: "musicStart_init_js k x = (Returned, ?x0)"
    using en c1 by (simp add: musicStart_init_js_def Let_def)
  note off = start_offset_js [OF t]
  note ah = ahead_js [OF t]
  have p0: "musicPlaying ?x0" and c0: "ctx ?x0 = Some c" and n0: "phraseCount ?x0 = 0"
    and m0: "musicScheduled ?x0 = ?w0" and v0: "voices ?x0 = voices x"
    using c1 v1 by simp_all
  have ch: "chordAt (chordIndex (phraseCount ?x0)) = Some [294, 370, 440]"
    unfolding n0 by (simp add: chordAt_def chordIndex_def toInt32_def js_rem_def CHORDS_def)
  have w: "0 \<le> musicScheduled ?x0" "musicScheduled ?x0 \<le> 2 ^ 20"
    unfolding m0 using off t by (simp; linarith)+
  note st = step_js [OF w [unfolded m0]]
  have sb: "(?w0 + 3.84) - 1 / 2 ^ 31 \<le> fl (?w0 + fl (BAR_js * 2)) \<and>
      fl (?w0 + fl (BAR_js * 2)) \<le> (?w0 + 3.84) + 1 / 2 ^ 31"
    by (rule near_bounds [OF st(1)]) simp
  have lt: "musicScheduled ?x0 < fl (currentTime c + AHEAD_js)"
    unfolding m0 using off(2) ah(2) by (simp; linarith)
  have ge: "\<not> fl (musicScheduled ?x0 + fl (BAR_js * 2)) < fl (currentTime c + AHEAD_js)"
    unfolding m0 using sb off(1) ah(3) by (simp; linarith)
  obtain s2 where blk: "scheduleBars_js k (musicScheduled ?x0) ?x0 = (Returned, s2)"
    and tk: "musicTick_js k ?x0 = Some (Returned,
       s2\<lparr>timers := timers s2 @ [\<lparr>handle = Suc (lastHandle s2), callback = TickCallback,
                                   delayMs = fl (fl (BAR_js * 1000) / 2)\<rparr>],
           lastHandle := Suc (lastHandle s2), musicTimer := Some (Suc (lastHandle s2))\<rparr>)"
    using musicTick_js_one [OF p0 c0 ch w lt ge, of k] by blast
  let ?x' = "s2\<lparr>timers := timers s2 @ [\<lparr>handle = Suc (lastHandle s2), callback = TickCallback,
                                   delayMs = fl (fl (BAR_js * 1000) / 2)\<rparr>],
           lastHandle := Suc (lastHandle s2), musicTimer := Some (Suc (lastHandle s2))\<rparr>"
  obtain c' m b pre fin mel where
    s2: "s2 = ?x0\<lparr>ctx := Some c', master := m, musicBus := b,
            voices := voices ?x0 @ pre @ fin @ mel,
            phraseCount := phraseCount ?x0 + 1,
            musicScheduled := fl (musicScheduled ?x0 + fl (BAR_js * 2))\<rparr>"
    and len: "length pre = 11" "length fin = 3" "length mel = 6"
    and seg: "list_all (timed (musicScheduled ?x0 - 1 / 2 ^ 28) (musicScheduled ?x0 + 2.52)
        (musicScheduled ?x0) (musicScheduled ?x0 + 3.33)) pre"
      "list_all (timed (musicScheduled ?x0 + 3.35) (musicScheduled ?x0 + 3.48)
        (musicScheduled ?x0 + 4.16) (musicScheduled ?x0 + 4.289)) fin"
      "list_all (timed (musicScheduled ?x0 - 1 / 2 ^ 28) (musicScheduled ?x0 + 1.45)
        (musicScheduled ?x0) (musicScheduled ?x0 + 1.75)) mel"
    using scheduleBars_js_returned [OF p0 blk w] by blast
  have after: "\<And>vs a1 a2 b1 b2. list_all (timed a1 a2 b1 b2) vs \<Longrightarrow> ?w0 - 1 / 2 ^ 28 \<le> a1 \<Longrightarrow>
      list_all (\<lambda>v. currentTime c < startT v) vs"
  proof -
    fix vs a1 a2 b1 b2
    assume l: "list_all (timed a1 a2 b1 b2) vs" and a: "?w0 - 1 / 2 ^ 28 \<le> a1"
    have "list_all (\<lambda>v. ?w0 - 1 / 2 ^ 28 \<le> startT v) vs"
      using l a by (rule timed_start)
    then show "list_all (\<lambda>v. currentTime c < startT v) vs"
    proof (rule list_all_weaken)
      fix v assume "?w0 - 1 / 2 ^ 28 \<le> startT v"
      then show "currentTime c < startT v" using off(1) by (simp; linarith)
    qed
  qed
  have a1: "list_all (\<lambda>v. currentTime c < startT v) pre"
    by (rule after [OF seg(1)]) simp
  have a2: "list_all (\<lambda>v. currentTime c < startT v) fin"
    by (rule after [OF seg(2)]) simp
  have a3: "list_all (\<lambda>v. currentTime c < startT v) mel"
    by (rule after [OF seg(3)]) simp
  have then': "musicStart_then_js k x = Some (Returned, ?x')"
    using init tk by (simp add: musicStart_then_js_def)
  have x': "musicPlaying ?x'" "phraseCount ?x' = 1"
    "musicScheduled ?x' = fl (musicScheduled ?x0 + fl (BAR_js * 2))"
    "voices ?x' = voices x @ (pre @ fin @ mel)"
    by (subst s2, simp add: v1)+
  have clk: "currentTime c < musicScheduled ?x0"
    unfolding m0 using off(1) by (simp; linarith)
  show ?thesis
    using init n0 m0 clk then' x' len a1 a2 a3
    by (intro exI [of _ ?x0] exI [of _ ?x'] exI [of _ "pre @ fin @ mel"]) simp
qed

lemma musicStart_js_stopped:
  assumes "\<not> musicPlaying x" and "ctx x = Some c"
  shows "musicStart_js k x =
     (Inr (Some (Chain (if acState c = Suspended then Pending else Fulfilled)
                   (musicStart_then_js k))), x)"
  using assms by (simp add: musicStart_js_def readyThen_def ready_js_def getCtx_js_def)

text \<open>
  C6. On a running scheduler with an audio context (clock between 0 and \<open>10 ^ 6\<close>
  seconds), \<^verbatim>\<open>musicStop\<close> followed by \<^verbatim>\<open>musicStart\<close> returns with the start callback
  registered and nothing reset: the phrase counter and the watermark are what they
  were, and the promise of the chain is fulfilled for a running context and pending for
  a suspended one. The reset is the work of the callback. When it runs (from the state
  the two calls have left), its assignments set the phrase counter to 0 and the
  watermark to the clock plus 0.1, rounded, which is strictly after the clock; its
  first tick then generates one block, so that the callback ends with the phrase
  counter at 1, the watermark one 2-bar duration further, and twenty new voices, each
  of which starts strictly after the clock. (Lemma \<open>start_callback_js\<close> says the same of
  the callback run from any state that has an audio context, as after a \<^verbatim>\<open>resume()\<close>
  that settles later.)
\<close>

theorem stop_then_start_js:
  assumes "musicPlaying s" and "ctx s = Some c"
    and "0 \<le> currentTime c" and "currentTime c \<le> 10 ^ 6"
  shows "musicStart_js k (musicStop s) =
       (Inr (Some (Chain (if acState c = Suspended then Pending else Fulfilled)
                     (musicStart_then_js k))), musicStop s) \<and>
     phraseCount (musicStop s) = phraseCount s \<and>
     musicScheduled (musicStop s) = musicScheduled s \<and>
     (\<exists>s0 s' vs. musicStart_init_js k (musicStop s) = (Returned, s0) \<and> phraseCount s0 = 0 \<and>
        musicScheduled s0 = fl (currentTime c + fl 0.1) \<and> currentTime c < musicScheduled s0 \<and>
        run_chain Fulfilled
          (Chain (if acState c = Suspended then Pending else Fulfilled) (musicStart_then_js k))
          (musicStop s) = Some s' \<and>
        musicPlaying s' \<and> phraseCount s' = 1 \<and>
        musicScheduled s' = fl (musicScheduled s0 + fl (BAR_js * 2)) \<and>
        voices s' = voices s @ vs \<and> length vs = 20 \<and>
        list_all (\<lambda>v. currentTime c < startT v) vs)"
proof -
  have k: "\<not> musicPlaying (musicStop s)" "ctx (musicStop s) = Some c"
    "voices (musicStop s) = voices s" "phraseCount (musicStop s) = phraseCount s"
    "musicScheduled (musicStop s) = musicScheduled s"
    using musicStop_keeps [of s] assms(2) by simp_all
  obtain s0 s' vs where cb: "musicStart_init_js k (musicStop s) = (Returned, s0)"
    "phraseCount s0 = 0" "musicScheduled s0 = fl (currentTime c + fl 0.1)"
    "currentTime c < musicScheduled s0"
    "musicStart_then_js k (musicStop s) = Some (Returned, s')" "musicPlaying s'"
    "phraseCount s' = 1" "musicScheduled s' = fl (musicScheduled s0 + fl (BAR_js * 2))"
    "voices s' = voices (musicStop s) @ vs" "length vs = 20"
    "list_all (\<lambda>v. currentTime c < startT v) vs"
    using start_callback_js [OF k(2) assms(3,4), of k] by blast
  have run: "run_chain Fulfilled
          (Chain (if acState c = Suspended then Pending else Fulfilled) (musicStart_then_js k))
          (musicStop s) = Some s'"
    using cb(5) by (simp add: run_chain_def)
  have "\<exists>s0 s' vs. musicStart_init_js k (musicStop s) = (Returned, s0) \<and> phraseCount s0 = 0 \<and>
        musicScheduled s0 = fl (currentTime c + fl 0.1) \<and> currentTime c < musicScheduled s0 \<and>
        run_chain Fulfilled
          (Chain (if acState c = Suspended then Pending else Fulfilled) (musicStart_then_js k))
          (musicStop s) = Some s' \<and>
        musicPlaying s' \<and> phraseCount s' = 1 \<and>
        musicScheduled s' = fl (musicScheduled s0 + fl (BAR_js * 2)) \<and>
        voices s' = voices s @ vs \<and> length vs = 20 \<and>
        list_all (\<lambda>v. currentTime c < startT v) vs"
    using cb(1-4) run cb(6-8) cb(9) [unfolded k(3)] cb(10,11)
    by (intro exI [of _ s0] exI [of _ s'] exI [of _ vs]) simp
  then show ?thesis
    using musicStart_js_stopped [OF k(1,2), of k] k(4,5) by simp
qed

text \<open>
  The scenario of the second tick is a state the code reaches: \<^verbatim>\<open>musicStart\<close> on the freshly
  loaded module, with a constructor that returns a running context, and its callback run
  at clock 0, give the running flag, the phrase counter and the watermark of
  \<open>secondTick_js\<close>, and twenty voices. So in binary64 too the first tick after a start at
  clock 0 generates one block, and leaves the watermark at the double 3.94.
\<close>

lemma start_reaches_secondTick_js:
  "\<exists>s'. fst (musicStart_js (CtorMakes Running) initial) =
       Inr (Some (Chain Fulfilled (musicStart_then_js (CtorMakes Running)))) \<and>
     run_chain Fulfilled (Chain Fulfilled (musicStart_then_js (CtorMakes Running)))
       (snd (musicStart_js (CtorMakes Running) initial)) = Some s' \<and>
     musicPlaying s' \<and> phraseCount s' = phraseCount secondTick_js \<and>
     musicScheduled s' = musicScheduled secondTick_js \<and> length (voices s') = 20"
proof -
  let ?K = "CtorMakes Running"
  let ?c = "\<lparr>acState = Running, currentTime = 0\<rparr>"
  let ?x = "initial\<lparr>ctx := Some ?c, master := Some \<lparr>gainValue = vol initial, scheduled = []\<rparr>\<rparr>"
  have st: "musicStart_js ?K initial = (Inr (Some (Chain Fulfilled (musicStart_then_js ?K))), ?x)"
    by (simp add: musicStart_js_def readyThen_def ready_js_def getCtx_js_def initial_def)
  have c: "ctx ?x = Some ?c" by simp
  have clock: "0 \<le> currentTime ?c" "currentTime ?c \<le> 10 ^ 6" by simp_all
  obtain x0 x' vs where cb: "musicStart_init_js ?K ?x = (Returned, x0)"
    "musicScheduled x0 = fl (currentTime ?c + fl 0.1)"
    "musicStart_then_js ?K ?x = Some (Returned, x')" "musicPlaying x'" "phraseCount x' = 1"
    "musicScheduled x' = fl (musicScheduled x0 + fl (BAR_js * 2))"
    "voices x' = voices ?x @ vs" "length vs = 20"
    using start_callback_js [OF c clock, of ?K] by blast
  have w0: "musicScheduled x0 = fl 0.1"
    unfolding cb(2) by (simp add: fl_eval)
  have run: "run_chain Fulfilled (Chain Fulfilled (musicStart_then_js ?K)) ?x = Some x'"
    using cb(3) by (simp add: run_chain_def)
  have "phraseCount x' = phraseCount secondTick_js"
    "musicScheduled x' = musicScheduled secondTick_js" "length (voices x') = 20"
    using cb(5,6,7,8) w0 by (simp_all add: secondTick_js_def initial_def)
  then show ?thesis
    unfolding st using run cb(4) by simp
qed

lemma playing5_js_fields:
  "musicPlaying playing5_js" "ctx playing5_js = Some \<lparr>acState = Running, currentTime = 15\<rparr>"
  "phraseCount playing5_js = 5" "voices playing5_js = []"
  "musicPlaying suspended5_js" "ctx suspended5_js = Some \<lparr>acState = Suspended, currentTime = 15\<rparr>"
  "phraseCount suspended5_js = 5"
  by (simp_all add: playing5_js_def suspended5_js_def)

lemma playing5_js_watermark: "musicScheduled playing5_js = 1358116762628915 / 2 ^ 46"
proof -
  have five: "(5::nat) = Suc (Suc (Suc (Suc (Suc 0))))" by simp
  have T: "fl (BAR_js * 2) = 1080863910568919 / 2 ^ 48"
    by (simp add: BAR_js_def fl_eval)
  have w0: "fl 0.1 = 3602879701896397 / 2 ^ 55"
    by (simp add: fl_eval)
  have w1: "fl (3602879701896397 / 2 ^ 55 + 1080863910568919 / 2 ^ 48) = 8872091265919877 / 2 ^ 51"
    by (simp add: fl_eval)
  have w2: "fl (8872091265919877 / 2 ^ 51 + 1080863910568919 / 2 ^ 48) = 4379750637617807 / 2 ^ 49"
    by (simp add: fl_eval)
  have w3: "fl (4379750637617807 / 2 ^ 49 + 1080863910568919 / 2 ^ 48) = 6541478458755645 / 2 ^ 49"
    by (simp add: fl_eval)
  have w4: "fl (6541478458755645 / 2 ^ 49 + 1080863910568919 / 2 ^ 48) = 8703206279893483 / 2 ^ 49"
    by (simp add: fl_eval)
  have w5: "fl (8703206279893483 / 2 ^ 49 + 1080863910568919 / 2 ^ 48) = 1358116762628915 / 2 ^ 46"
    by (simp add: fl_eval)
  have "musicScheduled playing5_js =
      ((\<lambda>w. fl (w + fl (BAR_js * 2))) ^^ Suc (Suc (Suc (Suc (Suc 0))))) (fl 0.1)"
    unfolding five [symmetric] by (simp add: playing5_js_def)
  then show ?thesis
    by (simp only: funpow.simps o_apply id_apply T w0 w1 w2 w3 w4 w5)
qed

text \<open>The statement of C6, with its hypotheses, on the scheduler that has generated five blocks.\<close>

theorem stop_then_start_js_witness:
  "musicPlaying playing5_js \<and> ctx playing5_js = Some \<lparr>acState = Running, currentTime = 15\<rparr> \<and>
   0 \<le> currentTime \<lparr>acState = Running, currentTime = 15\<rparr> \<and>
   currentTime \<lparr>acState = Running, currentTime = 15\<rparr> \<le> 10 ^ 6 \<and>
   musicStart_js (CtorMakes Running) (musicStop playing5_js) =
       (Inr (Some (Chain (if acState \<lparr>acState = Running, currentTime = 15\<rparr> = Suspended
                          then Pending else Fulfilled)
                     (musicStart_then_js (CtorMakes Running)))), musicStop playing5_js) \<and>
   phraseCount (musicStop playing5_js) = phraseCount playing5_js \<and>
   musicScheduled (musicStop playing5_js) = musicScheduled playing5_js \<and>
   (\<exists>s0 s' vs. musicStart_init_js (CtorMakes Running) (musicStop playing5_js) = (Returned, s0) \<and>
      phraseCount s0 = 0 \<and>
      musicScheduled s0 = fl (currentTime \<lparr>acState = Running, currentTime = 15\<rparr> + fl 0.1) \<and>
      currentTime \<lparr>acState = Running, currentTime = 15\<rparr> < musicScheduled s0 \<and>
      run_chain Fulfilled
        (Chain (if acState \<lparr>acState = Running, currentTime = 15\<rparr> = Suspended
                then Pending else Fulfilled) (musicStart_then_js (CtorMakes Running)))
        (musicStop playing5_js) = Some s' \<and>
      musicPlaying s' \<and> phraseCount s' = 1 \<and>
      musicScheduled s' = fl (musicScheduled s0 + fl (BAR_js * 2)) \<and>
      voices s' = voices playing5_js @ vs \<and> length vs = 20 \<and>
      list_all (\<lambda>v. currentTime \<lparr>acState = Running, currentTime = 15\<rparr> < startT v) vs)"
proof -
  have h: "musicPlaying playing5_js"
    "ctx playing5_js = Some \<lparr>acState = Running, currentTime = 15\<rparr>"
    "0 \<le> currentTime \<lparr>acState = Running, currentTime = 15\<rparr>"
    "currentTime \<lparr>acState = Running, currentTime = 15\<rparr> \<le> 10 ^ 6"
    by (simp_all add: playing5_js_def)
  show ?thesis
    using stop_then_start_js [OF h, of "CtorMakes Running"] h by blast
qed

text \<open>
  C6, as stated, fails on the scheduler that has generated five blocks. When
  \<^verbatim>\<open>musicStop(); musicStart()\<close> has returned, the phrase counter is still 5 and the
  watermark still 19.299999999999997; once the callback has run, the counter is 1, not
  0, because the callback's own first tick has generated a block. And if the context is
  suspended and \<^verbatim>\<open>resume()\<close> never settles, the callback never runs: the counter stays
  at 5.
\<close>

theorem restart_resets_in_callback_only:
  "fst (musicStart_js (CtorMakes Running) (musicStop playing5_js)) =
     Inr (Some (Chain Fulfilled (musicStart_then_js (CtorMakes Running)))) \<and>
   phraseCount (snd (musicStart_js (CtorMakes Running) (musicStop playing5_js))) = 5 \<and>
   musicScheduled (snd (musicStart_js (CtorMakes Running) (musicStop playing5_js))) =
     1358116762628915 / 2 ^ 46 \<and>
   map_option phraseCount
     (run_chain Fulfilled (Chain Fulfilled (musicStart_then_js (CtorMakes Running)))
        (musicStop playing5_js)) = Some 1 \<and>
   fst (musicStart_js (CtorMakes Running) (musicStop suspended5_js)) =
     Inr (Some (Chain Pending (musicStart_then_js (CtorMakes Running)))) \<and>
   map_option phraseCount
     (run_chain Pending (Chain Pending (musicStart_then_js (CtorMakes Running)))
        (musicStop suspended5_js)) = Some 5"
proof -
  have k: "\<not> musicPlaying (musicStop playing5_js)"
    "ctx (musicStop playing5_js) = Some \<lparr>acState = Running, currentTime = 15\<rparr>"
    "phraseCount (musicStop playing5_js) = 5"
    "musicScheduled (musicStop playing5_js) = 1358116762628915 / 2 ^ 46"
    using musicStop_keeps [of playing5_js] playing5_js_fields playing5_js_watermark by simp_all
  have ks: "\<not> musicPlaying (musicStop suspended5_js)"
    "ctx (musicStop suspended5_js) = Some \<lparr>acState = Suspended, currentTime = 15\<rparr>"
    "phraseCount (musicStop suspended5_js) = 5"
    using musicStop_keeps [of suspended5_js] playing5_js_fields by simp_all
  have a: "musicStart_js (CtorMakes Running) (musicStop playing5_js) =
      (Inr (Some (Chain Fulfilled (musicStart_then_js (CtorMakes Running)))),
       musicStop playing5_js)"
    using musicStart_js_stopped [OF k(1,2), of "CtorMakes Running"] by simp
  have b: "musicStart_js (CtorMakes Running) (musicStop suspended5_js) =
      (Inr (Some (Chain Pending (musicStart_then_js (CtorMakes Running)))),
       musicStop suspended5_js)"
    using musicStart_js_stopped [OF ks(1,2), of "CtorMakes Running"] by simp
  have clock: "0 \<le> currentTime \<lparr>acState = Running, currentTime = 15\<rparr>"
    "currentTime \<lparr>acState = Running, currentTime = 15\<rparr> \<le> 10 ^ 6"
    by simp_all
  obtain s' where "musicStart_then_js (CtorMakes Running) (musicStop playing5_js) = Some (Returned, s')"
    and "phraseCount s' = 1"
    using start_callback_js [OF k(2) clock, of "CtorMakes Running"] by blast
  then have c: "map_option phraseCount
     (run_chain Fulfilled (Chain Fulfilled (musicStart_then_js (CtorMakes Running)))
        (musicStop playing5_js)) = Some 1"
    by (simp add: run_chain_def)
  have d: "map_option phraseCount
     (run_chain Pending (Chain Pending (musicStart_then_js (CtorMakes Running)))
        (musicStop suspended5_js)) = Some 5"
    using ks(3) by (simp add: run_chain_def)
  show ?thesis
    unfolding a b using k(3,4) c d by simp
qed

section \<open>One-shot sounds and a constructor that throws\<close>

lemma readyThen_outcome:
  "readyThen k cb s =
     (if ctx s = None \<and> k = CtorThrows then (Inl DOMException, s)
      else (Inr (Chain (case ctx (snd (getCtx_js k s)) of
                          None \<Rightarrow> Rejected
                        | Some c \<Rightarrow> if acState c = Suspended then Pending else Fulfilled) cb),
            snd (getCtx_js k s)))"
  by (cases "ctx s"; cases k) (simp_all add: readyThen_def ready_js_def getCtx_js_def)

text \<open>
  C8. The four \<^verbatim>\<open>play\<close> functions do throw to their caller: each evaluates \<^verbatim>\<open>ready()\<close>
  before it attaches \<^verbatim>\<open>.then\<close> and \<^verbatim>\<open>.catch\<close> to the result, \<^verbatim>\<open>ready()\<close> calls
  \<^verbatim>\<open>getCtx()\<close>, and \<^verbatim>\<open>getCtx()\<close> calls the AudioContext constructor with no handler
  around it. As long as no context exists, a constructor that throws makes every
  \<^verbatim>\<open>play\<close> call end with that exception, the state unchanged.
\<close>

theorem play_throws_with_throwing_constructor:
  assumes "ctx s = None"
  shows "playBell CtorThrows o1 s = (Inl DOMException, s) \<and>
     playGhost CtorThrows o2 s = (Inl DOMException, s) \<and>
     playTick CtorThrows o3 s = (Inl DOMException, s) \<and>
     playBuzz CtorThrows o4 s = (Inl DOMException, s)"
  using assms
  by (simp add: playBell_def playGhost_def playTick_def playBuzz_def readyThen_outcome)

text \<open>The statement of C8, with its hypothesis, on the state right after the script has loaded.\<close>

theorem play_throws_with_throwing_constructor_witness:
  "ctx initial = None \<and>
   playBell CtorThrows None initial = (Inl DOMException, initial) \<and>
   playGhost CtorThrows None initial = (Inl DOMException, initial) \<and>
   playTick CtorThrows None initial = (Inl DOMException, initial) \<and>
   playBuzz CtorThrows None initial = (Inl DOMException, initial)"
  using play_throws_with_throwing_constructor [of initial None None None None]
  by (simp add: initial_def)

text \<open>
  In every other case a \<^verbatim>\<open>play\<close> call returns normally; and without a constructor it
  leaves the state as it is and a rejected chain behind, whose callback never runs.
\<close>

lemma play_returns_otherwise:
  assumes "ctx s \<noteq> None \<or> k \<noteq> CtorThrows"
  shows "\<not> isl (fst (playBell k o1 s)) \<and> \<not> isl (fst (playGhost k o2 s)) \<and>
     \<not> isl (fst (playTick k o3 s)) \<and> \<not> isl (fst (playBuzz k o4 s))"
proof -
  have "\<not> (ctx s = None \<and> k = CtorThrows)" using assms by auto
  then have "\<And>cb. \<not> isl (fst (readyThen k cb s))"
    by (simp add: readyThen_outcome)
  then show ?thesis
    by (simp add: playBell_def playGhost_def playTick_def playBuzz_def)
qed

lemma play_without_audio:
  assumes "ctx s = None"
  shows "playBell NoCtor o1 s =
       (Inr (Chain Rejected (\<lambda>x. Some (playBell_then (optsOrEmpty o1) x))), s)"
    and "playGhost NoCtor o2 s =
       (Inr (Chain Rejected (\<lambda>x. Some (playGhost_then (optsOrEmpty o2) x))), s)"
    and "playTick NoCtor o3 s =
       (Inr (Chain Rejected (\<lambda>x. Some (playTick_then (optsOrEmpty o3) x))), s)"
    and "playBuzz NoCtor o4 s =
       (Inr (Chain Rejected (\<lambda>x. Some (playBuzz_then (optsOrEmpty o4) x))), s)"
    and "run_chain settled (Chain Rejected cb) x = Some x"
  using assms
  by (simp_all add: playBell_def playGhost_def playTick_def playBuzz_def readyThen_outcome
      getCtx_js_def run_chain_def)

end
